theory Spec2Isabelle
  imports Complex_Main "HOL-Library.Log_Nat" "HOL-Library.AList" "HOL-Library.Word"
begin

section \<open>JavaScript numbers\<close>

text \<open>
  A JavaScript Number is an IEEE 754 double.  A finite double is a rational number, so
  \<open>Num x\<close> carries its exact value; the three other constructors are the values that are
  not finite.  The sign of zero is not represented (\<open>Num 0\<close> stands for both zeros): no
  expression of \<open>App.js\<close> that is modelled below distinguishes them.
\<close>

datatype number = Num rat | NaN | PosInf | NegInf

text \<open>
  \<open>floor_log2 x\<close> is, for \<open>x > 0\<close>, the exponent \<open>e\<close> with \<open>2^e \<le> x < 2^(e+1)\<close>, computed
  from the bit lengths of numerator and denominator.
\<close>

definition floor_log2 :: "rat \<Rightarrow> int" where
  "floor_log2 x = (let (a, b) = quotient_of x; e = bitlen a - bitlen b
                   in if power_int 2 e \<le> x then e else e - 1)"

definition round_half_even :: "rat \<Rightarrow> int" where
  "round_half_even q = (let f = \<lfloor>q\<rfloor>; d = q - of_int f
     in if d < 1 / 2 then f else if 1 / 2 < d then f + 1 else if even f then f else f + 1)"

text \<open>
  \<open>to_double x\<close> is the Number value for the real \<open>x\<close>: the nearest double, ties to the
  even significand (53 bits, least exponent \<open>-1074\<close>), and an infinity once the rounded
  value reaches \<open>2^1024\<close>.  Decimal literals of the source and the results of \<open>*\<close> and
  \<open>+\<close> go through it.
\<close>

definition to_double :: "rat \<Rightarrow> number" where
  "to_double x = (if x = 0 then Num 0 else
     let u = power_int 2 (max (floor_log2 \<bar>x\<bar> - 52) (- 1074));
         y = of_int (round_half_even (x / u)) * u
     in if 2 ^ 1024 \<le> y then PosInf else if y \<le> - (2 ^ 1024) then NegInf else Num y)"

definition is_double :: "rat \<Rightarrow> bool" where
  "is_double x \<longleftrightarrow> to_double x = Num x"

fun js_mul :: "number \<Rightarrow> number \<Rightarrow> number" where
  "js_mul NaN _ = NaN"
| "js_mul _ NaN = NaN"
| "js_mul (Num a) (Num b) = to_double (a * b)"
| "js_mul (Num a) PosInf = (if a = 0 then NaN else if 0 < a then PosInf else NegInf)"
| "js_mul (Num a) NegInf = (if a = 0 then NaN else if 0 < a then NegInf else PosInf)"
| "js_mul PosInf (Num b) = (if b = 0 then NaN else if 0 < b then PosInf else NegInf)"
| "js_mul NegInf (Num b) = (if b = 0 then NaN else if 0 < b then NegInf else PosInf)"
| "js_mul PosInf PosInf = PosInf"
| "js_mul PosInf NegInf = NegInf"
| "js_mul NegInf PosInf = NegInf"
| "js_mul NegInf NegInf = PosInf"

fun js_add :: "number \<Rightarrow> number \<Rightarrow> number" where
  "js_add NaN _ = NaN"
| "js_add _ NaN = NaN"
| "js_add (Num a) (Num b) = to_double (a + b)"
| "js_add (Num a) PosInf = PosInf"
| "js_add (Num a) NegInf = NegInf"
| "js_add PosInf (Num b) = PosInf"
| "js_add NegInf (Num b) = NegInf"
| "js_add PosInf PosInf = PosInf"
| "js_add PosInf NegInf = NaN"
| "js_add NegInf PosInf = NaN"
| "js_add NegInf NegInf = NegInf"

text \<open>The relational operators \<open>>=\<close> and \<open><\<close>: false as soon as an operand is \<open>NaN\<close>.\<close>

fun js_lt :: "number \<Rightarrow> number \<Rightarrow> bool" where
  "js_lt NaN _ = False"
| "js_lt _ NaN = False"
| "js_lt (Num a) (Num b) = (a < b)"
| "js_lt (Num a) PosInf = True"
| "js_lt (Num a) NegInf = False"
| "js_lt PosInf _ = False"
| "js_lt NegInf (Num b) = True"
| "js_lt NegInf PosInf = True"
| "js_lt NegInf NegInf = False"

fun js_ge :: "number \<Rightarrow> number \<Rightarrow> bool" where
  "js_ge NaN _ = False"
| "js_ge _ NaN = False"
| "js_ge (Num a) (Num b) = (b \<le> a)"
| "js_ge (Num a) PosInf = False"
| "js_ge (Num a) NegInf = True"
| "js_ge PosInf _ = True"
| "js_ge NegInf (Num b) = False"
| "js_ge NegInf PosInf = False"
| "js_ge NegInf NegInf = True"

fun Math_floor :: "number \<Rightarrow> number" where
  "Math_floor (Num a) = Num (of_int \<lfloor>a\<rfloor>)"
| "Math_floor n = n"

text \<open>The decimal digits of a natural number, most significant first.\<close>

fun decimal_digits :: "nat \<Rightarrow> string" where
  "decimal_digits n =
     (if 10 \<le> n then decimal_digits (n div 10) else []) @ [char_of (n mod 10 + 48)]"

declare decimal_digits.simps [simp del]


section \<open>Trend stream: the interval callback of \<open>AnalyticsDashboard\<close>\<close>

record trend_point =
  time :: string
  spam :: number
  malware :: number

text \<open>
  The object pushed by one tick.  \<open>timestamp\<close> is the string \<open>toLocaleTimeString()\<close>
  returned, \<open>r1\<close> and \<open>r2\<close> are the two values \<open>Math.random()\<close> returned, in call order.
\<close>

definition new_point :: "string \<times> rat \<times> rat \<Rightarrow> trend_point" where
  "new_point d = (case d of (timestamp, r1, r2) \<Rightarrow>
     \<lparr> time = timestamp,
       spam = js_add (Math_floor (js_mul (Num r1) (Num 20))) (Num 5),
       malware = js_add (Math_floor (js_mul (Num r2) (Num 15))) (Num 3) \<rparr>)"

text \<open>The updater passed to \<open>setThreatTrends\<close>: copy, push, shift when longer than 20.\<close>

definition threatTrends_update :: "string \<times> rat \<times> rat \<Rightarrow> trend_point list \<Rightarrow> trend_point list" where
  "threatTrends_update d prev =
     (let newData = prev @ [new_point d]
      in if length newData > 20 then tl newData else newData)"

text \<open>The state after the ticks \<open>ds\<close> (oldest first), from the initial state \<open>[]\<close>.\<close>

definition run_ticks :: "(string \<times> rat \<times> rat) list \<Rightarrow> trend_point list" where
  "run_ticks ds = foldl (\<lambda>s d. threatTrends_update d s) [] ds"

text \<open>A sample run of 25 ticks.\<close>

definition ticks25 :: "(string \<times> rat \<times> rat) list" where
  "ticks25 = map (\<lambda>k. (''tick '' @ decimal_digits k, of_nat k / 32, of_nat k / 64)) [1 ..< 26]"


section \<open>Prediction history and the histogram of \<open>ConfidenceChart\<close>\<close>

text \<open>
  \<open>response_data\<close> is the parsed body \<open>data\<close> of a classifier response, as far as
  \<open>App.js\<close> reads it.  \<open>confidence\<close> is the Number the relational operators of the
  histogram see (\<open>NaN\<close> for a missing field).  An entry of the history is the body
  extended with \<open>type\<close> and \<open>timestamp\<close>.
\<close>

record response_data =
  prediction :: string
  confidence :: number
  probabilities :: "(string \<times> number) list"
  details :: "(string \<times> string) list"

record entry = response_data +
  type :: string
  timestamp :: nat

record prediction_history =
  spam :: "entry list"
  malware :: "entry list"

record histogram_bar =
  bin :: string
  count :: nat

text \<open>
  \<open>x.toFixed(0)\<close>: the nearest integer, the larger one at a tie, in decimal digits.
  For \<open>x \<ge> 10^21\<close> the source switches to exponent notation; the histogram applies
  \<open>toFixed\<close> to values up to 100 only, and that branch is not modelled.
\<close>

fun toFixed0 :: "number \<Rightarrow> string" where
  "toFixed0 NaN = ''NaN''"
| "toFixed0 PosInf = ''Infinity''"
| "toFixed0 NegInf = ''-Infinity''"
| "toFixed0 (Num x) = (if x < 0 then ''-'' @ decimal_digits (nat \<lfloor>- x + 1 / 2\<rfloor>)
                       else decimal_digits (nat \<lfloor>x + 1 / 2\<rfloor>))"

text \<open>The array literal \<open>[0, 0.1, 0.2, ..., 0.9, 1.0]\<close>: each literal is a double.\<close>

definition bins :: "number list" where
  "bins = [to_double 0, to_double (1 / 10), to_double (2 / 10), to_double (3 / 10),
           to_double (4 / 10), to_double (5 / 10), to_double (6 / 10), to_double (7 / 10),
           to_double (8 / 10), to_double (9 / 10), to_double 1]"

text \<open>The exact values of these eleven doubles.\<close>

definition edges :: "rat list" where
  "edges = [0, 3602879701896397 / 36028797018963968,
           3602879701896397 / 18014398509481984,
           5404319552844595 / 18014398509481984,
           3602879701896397 / 9007199254740992,
           1 / 2,
           5404319552844595 / 9007199254740992,
           3152519739159347 / 4503599627370496,
           3602879701896397 / 4503599627370496,
           8106479329266893 / 9007199254740992,
           1]"

definition bin_label :: "number \<Rightarrow> number \<Rightarrow> string" where
  "bin_label lo hi =
     toFixed0 (js_mul lo (Num 100)) @ ''-'' @ toFixed0 (js_mul hi (Num 100)) @ ''%''"

text \<open>\<open>bins.slice(0, -1).map((bin, i) => ...)\<close>: one bar for each edge but the last.\<close>

definition histogram :: "entry list \<Rightarrow> histogram_bar list" where
  "histogram allPredictions =
     map (\<lambda>(bin, i).
            \<lparr> bin = bin_label bin (bins ! (i + 1)),
              count = length (filter (\<lambda>p. js_ge (confidence p) bin
                                         \<and> js_lt (confidence p) (bins ! (i + 1))) allPredictions) \<rparr>)
         (zip (butlast bins) [0 ..< length (butlast bins)])"

definition allPredictions :: "prediction_history \<Rightarrow> string \<Rightarrow> entry list" where
  "allPredictions predictionHistory filterType =
     (let combined = map (\<lambda>p. p\<lparr>type := ''spam''\<rparr>) (spam predictionHistory)
                   @ map (\<lambda>p. p\<lparr>type := ''malware''\<rparr>) (malware predictionHistory)
      in if filterType \<noteq> ''all'' then filter (\<lambda>p. type p = filterType) combined
         else combined)"

text \<open>
  The effect of \<open>ConfidenceChart\<close>, up to the histogram it hands to the drawing code:
  \<open>None\<close> when the effect returns before it computes one.
\<close>

definition ConfidenceChart_effect ::
    "bool \<Rightarrow> prediction_history \<Rightarrow> string \<Rightarrow> histogram_bar list option" where
  "ConfidenceChart_effect svgRef_current predictionHistory filterType =
     (if \<not> svgRef_current then None
      else let snapshot = allPredictions predictionHistory filterType
           in if length snapshot = 0 then None
              else Some (histogram snapshot))"

text \<open>An entry as the detectors append it: \<open>{ ...data, type, timestamp: new Date() }\<close>.\<close>

definition mk_entry :: "response_data \<Rightarrow> string \<Rightarrow> nat \<Rightarrow> entry" where
  "mk_entry data ty now =
     \<lparr> prediction = prediction data, confidence = confidence data,
       probabilities = probabilities data, details = details data,
       type = ty, timestamp = now \<rparr>"

text \<open>
  Sample bodies: the out-of-contract body \<open>{"prediction":"spam","confidence":1.5,...}\<close>
  and a body whose confidence is exactly \<open>1.0\<close>.
\<close>

definition body_confidence_1_5 :: response_data where
  "body_confidence_1_5 =
     \<lparr> prediction = ''spam'', confidence = Num (3 / 2),
       probabilities = [(''spam'', Num (3 / 2))], details = [] \<rparr>"

definition body_confidence_1 :: response_data where
  "body_confidence_1 =
     \<lparr> prediction = ''spam'', confidence = Num 1,
       probabilities = [(''ham'', Num 0), (''spam'', Num 1)], details = [] \<rparr>"

definition body_confidence :: "rat \<Rightarrow> response_data" where
  "body_confidence c =
     \<lparr> prediction = ''ham'', confidence = Num c,
       probabilities = [(''ham'', Num c), (''spam'', Num (1 - c))], details = [] \<rparr>"

text \<open>
  A sample history, all in contract: spam results of confidence \<open>0.75\<close> and \<open>1.0\<close> and
  a malware result of confidence \<open>1.0\<close>.
\<close>

definition body_malware_confidence_1 :: response_data where
  "body_malware_confidence_1 =
     \<lparr> prediction = ''malware'', confidence = Num 1,
       probabilities = [(''benign'', Num 0), (''malware'', Num 1)], details = [] \<rparr>"

definition history_with_confidence_1 :: prediction_history where
  "history_with_confidence_1 =
     \<lparr> spam = [mk_entry (body_confidence (3 / 4)) ''spam'' 1, mk_entry body_confidence_1 ''spam'' 2],
       malware = [mk_entry body_malware_confidence_1 ''malware'' 3] \<rparr>"

section \<open>The detectors: \<open>SpamDetector\<close> and \<open>MalwareDetector\<close>\<close>

text \<open>
  A string whose content the code measures or parses (\<open>emailText\<close>, the \<open>value\<close> of a
  form field) is the list of its UTF-16 code units, which is what \<open>.length\<close> counts.
  Strings that are only compared or passed on (field names, messages) are \<open>string\<close>s.
\<close>

type_synonym js_string = "16 word list"

definition utf16 :: "string \<Rightarrow> js_string" where
  "utf16 s = map (\<lambda>c. of_nat (of_char c)) s"

text \<open>
  What \<open>await fetch(...)\<close> and \<open>await response.json()\<close> give: \<open>fetch\<close> rejects with an
  error (its message), or resolves with a response that has the flag \<open>ok\<close> and a body;
  \<open>json()\<close> rejects with an error (its message) on a body that is not JSON, or resolves
  with the parsed \<open>data\<close>.
\<close>

datatype response_body = Unparseable string | Json response_data

datatype fetch_result = Rejected string | Response bool response_body

text \<open>
  The body of a request is \<open>JSON.stringify\<close> of an object: of \<open>{ email_text }\<close>, or of
  \<open>formData\<close>, where a Number that is not finite is written \<open>null\<close>.
\<close>

datatype json_number = JNumber rat | JNull

fun JSON_stringify_number :: "number \<Rightarrow> json_number" where
  "JSON_stringify_number (Num x) = JNumber x"
| "JSON_stringify_number x = JNull"

datatype request_body = Email js_string | Form "(string \<times> json_number) list"

record request =
  url :: string
  body :: request_body

definition API_URL :: string where
  "API_URL = ''http://localhost:8000''"

record detector_state =
  result :: "response_data option"
  loading :: bool
  error :: "string option"

record spam_detector = detector_state +
  emailText :: js_string

record malware_detector = detector_state +
  formData :: "(string \<times> number) list"

subsection \<open>\<open>SpamDetector\<close>\<close>

definition SpamDetector_request :: "js_string \<Rightarrow> request" where
  "SpamDetector_request text = \<lparr> url = API_URL @ ''/predict/spam'', body = Email text \<rparr>"

text \<open>
  \<open>handleSubmit\<close>, from the three state resets to the end of \<open>finally\<close>.  \<open>response\<close> is
  the outcome of the request, \<open>now\<close> the value of \<open>new Date()\<close>, and the history is the one
  the updater of \<open>setPredictionHistory\<close> receives.
\<close>

definition SpamDetector_handleSubmit ::
    "fetch_result \<Rightarrow> nat \<Rightarrow> spam_detector \<times> prediction_history
       \<Rightarrow> spam_detector \<times> prediction_history" where
  "SpamDetector_handleSubmit response now sh =
     (case sh of (s0, prev) \<Rightarrow>
        let s = s0\<lparr>loading := True, error := None, result := None\<rparr>
        in (case response of
              Rejected message \<Rightarrow> (s\<lparr>error := Some message, loading := False\<rparr>, prev)
            | Response ok b \<Rightarrow>
                if \<not> ok then (s\<lparr>error := Some ''Prediction failed'', loading := False\<rparr>, prev)
                else (case b of
                        Unparseable message \<Rightarrow>
                          (s\<lparr>error := Some message, loading := False\<rparr>, prev)
                      | Json data \<Rightarrow>
                          (s\<lparr>result := Some data, loading := False\<rparr>,
                           prev\<lparr>spam := spam prev @ [mk_entry data ''spam'' now]\<rparr>))))"

text \<open>The attribute \<open>disabled\<close> of the submit button.\<close>

definition SpamDetector_submit_disabled :: "spam_detector \<Rightarrow> bool" where
  "SpamDetector_submit_disabled s \<longleftrightarrow> loading s \<or> length (emailText s) < 10"

text \<open>
  A click on the submit button, the only control that submits the form (the text area
  takes the Enter key as a line break).  A disabled button submits nothing; an enabled
  one runs \<open>handleSubmit\<close>, which sends one request.  When the button is enabled the
  text has 10 code units or more, so the attributes \<open>required\<close> and \<open>minLength\<close> of the
  text area hold as well.  \<open>server\<close> gives the outcome of a request; the second component
  of the result lists the requests sent.
\<close>

definition SpamDetector_click_submit ::
    "(request \<Rightarrow> fetch_result) \<Rightarrow> nat \<Rightarrow> spam_detector \<times> prediction_history
       \<Rightarrow> (spam_detector \<times> prediction_history) \<times> request list" where
  "SpamDetector_click_submit server now sh =
     (if SpamDetector_submit_disabled (fst sh) then (sh, [])
      else let req = SpamDetector_request (emailText (fst sh))
           in (SpamDetector_handleSubmit (server req) now sh, [req]))"

subsection \<open>\<open>MalwareDetector\<close>\<close>

text \<open>The initial \<open>formData\<close>, in the key order of the object literal.\<close>

definition MalwareDetector_formData :: "(string \<times> number) list" where
  "MalwareDetector_formData =
     [(''millisecond'', Num 0), (''state'', Num 0), (''usage_counter'', Num 0),
      (''prio'', Num 3069378560), (''static_prio'', Num 14274), (''normal_prio'', Num 0),
      (''policy'', Num 0), (''vm_pgoff'', Num 0), (''vm_truncate_count'', Num 15000),
      (''task_size'', Num 0), (''cached_hole_size'', Num 0), (''free_area_cache'', Num 0),
      (''mm_users'', Num 0), (''map_count'', Num 0), (''hiwater_rss'', Num 0),
      (''total_vm'', Num 0), (''shared_vm'', Num 0), (''exec_vm'', Num 0),
      (''reserved_vm'', Num 0), (''nr_ptes'', Num 0), (''end_data'', Num 0),
      (''last_interval'', Num 0), (''nvcsw'', Num 0), (''nivcsw'', Num 0),
      (''min_flt'', Num 0), (''maj_flt'', Num 120), (''fs_excl_counter'', Num 0),
      (''lock'', Num 3204448256), (''utime'', Num 380000), (''stime'', Num 4),
      (''gtime'', Num 0), (''cgtime'', Num 0), (''signal_nvcsw'', Num 0)]"

text \<open>
  \<open>parseInt(string)\<close> without a radix: leading white space is dropped, then a sign, then
  a prefix \<open>0x\<close> or \<open>0X\<close> (which selects radix 16), and the longest run of digits of
  the radix is read; the result is \<open>NaN\<close> when the run is empty and the Number value of
  the signed integer otherwise.  The integer is taken exactly; an implementation is
  allowed to read the decimal digits after the 20th as zeros, which the model does not do.
\<close>

definition is_white_space :: "16 word \<Rightarrow> bool" where
  "is_white_space c \<longleftrightarrow>
     c \<in> {0x9, 0xA, 0xB, 0xC, 0xD, 0x20, 0xA0, 0x1680, 0x2028, 0x2029, 0x202F, 0x205F,
          0x3000, 0xFEFF} \<or> (0x2000 \<le> c \<and> c \<le> 0x200A)"

text \<open>The value of a code unit as a digit; 36 for a code unit that is no digit or letter.\<close>

definition digit_of :: "16 word \<Rightarrow> nat" where
  "digit_of c = (if 0x30 \<le> c \<and> c \<le> 0x39 then unat c - 48
                 else if 0x41 \<le> c \<and> c \<le> 0x5A then unat c - 55
                 else if 0x61 \<le> c \<and> c \<le> 0x7A then unat c - 87
                 else 36)"

text \<open>The sign that is read and the rest of the string.\<close>

definition parseInt_sign :: "js_string \<Rightarrow> int \<times> js_string" where
  "parseInt_sign S = (if S \<noteq> [] \<and> hd S = 0x2D then (- 1, tl S)
                      else if S \<noteq> [] \<and> hd S = 0x2B then (1, tl S)
                      else (1, S))"

text \<open>The radix and the rest of the string.\<close>

definition parseInt_radix :: "js_string \<Rightarrow> nat \<times> js_string" where
  "parseInt_radix S = (if 2 \<le> length S \<and> S ! 0 = 0x30 \<and> (S ! 1 = 0x78 \<or> S ! 1 = 0x58)
                       then (16, drop 2 S) else (10, S))"

definition parseInt_digits :: "int \<Rightarrow> nat \<Rightarrow> js_string \<Rightarrow> number" where
  "parseInt_digits sign R S =
     (let Z = takeWhile (\<lambda>c. digit_of c < R) S
      in if Z = [] then NaN
         else to_double (of_int (sign * int (foldl (\<lambda>n c. n * R + digit_of c) 0 Z))))"

definition parseInt :: "js_string \<Rightarrow> number" where
  "parseInt string =
     (case parseInt_sign (dropWhile is_white_space string) of (sign, S) \<Rightarrow>
        (case parseInt_radix S of (R, S') \<Rightarrow> parseInt_digits sign R S'))"

text \<open>\<open>x || 0\<close> on a Number: \<open>NaN\<close> and zero are falsy.\<close>

fun js_or_0 :: "number \<Rightarrow> number" where
  "js_or_0 NaN = Num 0"
| "js_or_0 (Num a) = (if a = 0 then Num 0 else Num a)"
| "js_or_0 x = x"

text \<open>
  \<open>{ ...prev, [name]: parseInt(value) || 0 }\<close>: the value of an existing key is replaced
  in place, a new key is added at the end.
\<close>

definition MalwareDetector_handleChange ::
    "string \<Rightarrow> js_string \<Rightarrow> (string \<times> number) list \<Rightarrow> (string \<times> number) list" where
  "MalwareDetector_handleChange name val prev =
     AList.update name (js_or_0 (parseInt val)) prev"

definition MalwareDetector_loadExample ::
    "string \<Rightarrow> (string \<times> number) list \<Rightarrow> (string \<times> number) list" where
  "MalwareDetector_loadExample ty fd =
     (if ty = ''malware''
      then AList.update ''nvcsw'' (Num 100)
             (AList.update ''free_area_cache'' (Num 50000)
                (AList.update ''utime'' (Num 410000)
                   (AList.update ''static_prio'' (Num 25000) fd)))
      else AList.update ''nvcsw'' (Num 5)
             (AList.update ''free_area_cache'' (Num 10000)
                (AList.update ''utime'' (Num 370000)
                   (AList.update ''static_prio'' (Num 14000) fd))))"

text \<open>The request of \<open>handleSubmit\<close>: its body is \<open>formData\<close>, key by key.\<close>

definition MalwareDetector_request :: "(string \<times> number) list \<Rightarrow> request" where
  "MalwareDetector_request fd =
     \<lparr> url = API_URL @ ''/predict/malware'',
       body = Form (map (\<lambda>(k, v). (k, JSON_stringify_number v)) fd) \<rparr>"

text \<open>
  The inputs of the form: one for each of \<open>importantFields\<close>, then one for each other key
  of \<open>formData\<close>.  The name of an input is the \<open>name\<close> of its change events.
\<close>

definition importantFields :: "string list" where
  "importantFields =
     [''static_prio'', ''utime'', ''free_area_cache'', ''nvcsw'', ''shared_vm'',
      ''vm_truncate_count'']"

definition input_names :: "(string \<times> number) list \<Rightarrow> string list" where
  "input_names fd = importantFields @ filter (\<lambda>k. k \<notin> set importantFields) (map fst fd)"

definition MalwareDetector_handleSubmit ::
    "fetch_result \<Rightarrow> nat \<Rightarrow> malware_detector \<times> prediction_history
       \<Rightarrow> malware_detector \<times> prediction_history" where
  "MalwareDetector_handleSubmit response now sh =
     (case sh of (s0, prev) \<Rightarrow>
        let s = s0\<lparr>loading := True, error := None, result := None\<rparr>
        in (case response of
              Rejected message \<Rightarrow> (s\<lparr>error := Some message, loading := False\<rparr>, prev)
            | Response ok b \<Rightarrow>
                if \<not> ok then (s\<lparr>error := Some ''Prediction failed'', loading := False\<rparr>, prev)
                else (case b of
                        Unparseable message \<Rightarrow>
                          (s\<lparr>error := Some message, loading := False\<rparr>, prev)
                      | Json data \<Rightarrow>
                          (s\<lparr>result := Some data, loading := False\<rparr>,
                           prev\<lparr>malware := malware prev @ [mk_entry data ''malware'' now]\<rparr>))))"

text \<open>
  The events that change \<open>formData\<close>: a change of the input named \<open>name\<close>, and a click on
  one of the two example buttons.
\<close>

datatype form_event = Change string js_string | LoadExample string

fun form_step :: "form_event \<Rightarrow> (string \<times> number) list \<Rightarrow> (string \<times> number) list" where
  "form_step (Change name val) fd = MalwareDetector_handleChange name val fd"
| "form_step (LoadExample ty) fd = MalwareDetector_loadExample ty fd"

definition form_run :: "form_event list \<Rightarrow> (string \<times> number) list" where
  "form_run evs = foldl (\<lambda>fd e. form_step e fd) MalwareDetector_formData evs"

definition spam_detector_init :: spam_detector where
  "spam_detector_init = \<lparr> result = None, loading = False, error = None, emailText = [] \<rparr>"

definition malware_detector_init :: malware_detector where
  "malware_detector_init =
     \<lparr> result = None, loading = False, error = None, formData = MalwareDetector_formData \<rparr>"

definition predictionHistory_init :: prediction_history where
  "predictionHistory_init = \<lparr> spam = [], malware = [] \<rparr>"

text \<open>
  A sample body of the malware classifier that parses and is out of contract: the
  confidence is \<open>1.5\<close> and the key \<open>benign\<close> is missing.
\<close>

definition body_malware_1_5 :: response_data where
  "body_malware_1_5 =
     \<lparr> prediction = ''malware'', confidence = Num (3 / 2),
       probabilities = [(''malware'', Num (3 / 2))], details = [] \<rparr>"

section \<open>Properties of the number model\<close>

lemma of_int_bitlen_bounds:
  fixes a :: int
  assumes "0 < a"
  shows "(2::rat) powi (bitlen a - 1) \<le> of_int a" and "of_int a < (2::rat) powi (bitlen a)"
proof -
  from bitlen_bounds [OF assms]
  have lo: "2 ^ nat (bitlen a - 1) \<le> a" and hi: "a < 2 ^ nat (bitlen a)" by simp_all
  have pos: "1 \<le> bitlen a"
    using assms bitlen_eq_zero_iff [of a] bitlen_nonneg [of a] by linarith
  have "(2::rat) powi (bitlen a - 1) = 2 ^ nat (bitlen a - 1)"
    using pos by (simp add: power_int_nonneg_exp)
  also have "\<dots> = of_int (2 ^ nat (bitlen a - 1))" by simp
  also have "\<dots> \<le> of_int a" using lo by (simp only: of_int_le_iff)
  finally show "(2::rat) powi (bitlen a - 1) \<le> of_int a" .
  have "of_int a < (of_int (2 ^ nat (bitlen a)) :: rat)" using hi by (simp only: of_int_less_iff)
  also have "\<dots> = 2 ^ nat (bitlen a)" by simp
  also have "\<dots> = 2 powi (bitlen a)" using pos by (simp add: power_int_nonneg_exp)
  finally show "of_int a < (2::rat) powi (bitlen a)" .
qed

lemma pow2_less_cancel:
  assumes "(2::rat) powi m < 2 powi n"
  shows "m < n"
proof (rule ccontr)
  assume "\<not> m < n"
  then have "n \<le> m" by simp
  then have "(2::rat) powi n \<le> 2 powi m" by (intro power_int_increasing) simp_all
  with assms show False by simp
qed

lemma floor_log2_bounds:
  assumes "0 < x"
  shows "2 powi (floor_log2 x) \<le> x \<and> x < 2 powi (floor_log2 x + 1)"
proof -
  obtain a b where q: "quotient_of x = (a, b)" by (cases "quotient_of x")
  have b: "0 < b" using q by (rule quotient_of_denom_pos)
  have x: "x = of_int a / of_int b" using q by (rule quotient_of_div)
  have a: "0 < a" using assms b x by (simp add: zero_less_divide_iff)
  note A = of_int_bitlen_bounds [OF a] and B = of_int_bitlen_bounds [OF b]
  have bpos: "(0::rat) < of_int b" using b by simp
  have up: "x < 2 powi (bitlen a - bitlen b + 1)"
  proof -
    have "of_int a * (2::rat) powi (bitlen b - 1) \<le> of_int a * of_int b"
      using B(1) a by (intro mult_left_mono) simp_all
    also have "\<dots> < 2 powi (bitlen a) * of_int b"
      using A(2) bpos by (intro mult_strict_right_mono) simp_all
    finally have "of_int a * (2::rat) powi (bitlen b - 1) < 2 powi (bitlen a) * of_int b" .
    then have "x < 2 powi (bitlen a) / 2 powi (bitlen b - 1)"
      unfolding x using bpos by (simp add: field_simps)
    also have "\<dots> = 2 powi (bitlen a - (bitlen b - 1))" by (simp add: power_int_diff)
    finally show ?thesis by (simp add: algebra_simps)
  qed
  have lo: "2 powi (bitlen a - bitlen b - 1) \<le> x"
  proof -
    have "(2::rat) powi (bitlen a - 1) * of_int b \<le> of_int a * 2 powi (bitlen b)"
      using A(1) B(2) a b
      by (intro mult_mono) simp_all
    then have "2 powi (bitlen a - 1) / 2 powi (bitlen b) \<le> x"
      unfolding x using bpos by (simp add: field_simps)
    moreover have "(2::rat) powi (bitlen a - 1) / 2 powi (bitlen b) = 2 powi (bitlen a - 1 - bitlen b)"
      by (simp add: power_int_diff)
    ultimately show ?thesis by (simp add: algebra_simps)
  qed
  show ?thesis
  proof (cases "2 powi (bitlen a - bitlen b) \<le> x")
    case True
    then have "floor_log2 x = bitlen a - bitlen b" by (simp add: floor_log2_def q)
    with True up show ?thesis by simp
  next
    case False
    then have "floor_log2 x = bitlen a - bitlen b - 1" by (simp add: floor_log2_def q)
    with False lo show ?thesis by simp
  qed
qed

lemma floor_log2_unique:
  assumes "0 < x" "2 powi e \<le> x" "x < 2 powi (e + 1)"
  shows "floor_log2 x = e"
proof -
  from floor_log2_bounds [OF assms(1)]
  have l: "2 powi (floor_log2 x) \<le> x" and u: "x < 2 powi (floor_log2 x + 1)" by simp_all
  have "(2::rat) powi (floor_log2 x) < 2 powi (e + 1)" using l assms(3) by simp
  then have 1: "floor_log2 x < e + 1" by (rule pow2_less_cancel)
  have "(2::rat) powi e < 2 powi (floor_log2 x + 1)" using u assms(2) by simp
  then have 2: "e < floor_log2 x + 1" by (rule pow2_less_cancel)
  from 1 2 show ?thesis by simp
qed


lemma floor_rat_numeral:
  "\<lfloor>numeral a / numeral b :: rat\<rfloor> = numeral a div numeral b"
  "\<lfloor>- (numeral a / numeral b) :: rat\<rfloor> = - numeral a div numeral b"
  using floor_divide_of_int_eq [of "numeral a" "numeral b", where ?'a = rat]
    floor_divide_of_int_eq [of "- numeral a" "numeral b", where ?'a = rat]
  by simp_all

lemma round_half_even_ge: "of_int N \<le> q \<Longrightarrow> N \<le> round_half_even q"
proof -
  assume "of_int N \<le> q"
  then have "N \<le> \<lfloor>q\<rfloor>" by (simp add: le_floor_iff)
  then show ?thesis by (simp add: round_half_even_def Let_def floor_rat_numeral)
qed

lemma round_half_even_below: "q + 1 / 2 < of_int N \<Longrightarrow> round_half_even q \<le> N - 1"
proof -
  assume a: "q + 1 / 2 < of_int N"
  have f: "of_int \<lfloor>q\<rfloor> \<le> q" by simp
  have "\<lfloor>q\<rfloor> < N" using a f by (simp add: floor_less_iff)
  moreover have "1 / 2 \<le> q - of_int \<lfloor>q\<rfloor> \<Longrightarrow> \<lfloor>q\<rfloor> + 1 < N"
  proof -
    assume "1 / 2 \<le> q - of_int \<lfloor>q\<rfloor>"
    then have "of_int (\<lfloor>q\<rfloor> + 1) \<le> q + 1 / 2" by simp
    with a have "(of_int (\<lfloor>q\<rfloor> + 1) :: rat) < of_int N" by linarith
    then show ?thesis by (simp only: of_int_less_iff)
  qed
  ultimately show ?thesis by (auto simp add: round_half_even_def Let_def floor_rat_numeral)
qed

lemma round_half_even_le: "q \<le> of_int N \<Longrightarrow> round_half_even q \<le> N"
  using round_half_even_below [of q "N + 1"] by simp

lemma round_half_even_of_int [simp]: "round_half_even (of_int n) = n"
  by (simp add: round_half_even_def Let_def floor_rat_numeral)

lemma pow2_le_cancel:
  assumes "(2::rat) powi m \<le> 2 powi n"
  shows "m \<le> n"
proof (rule ccontr)
  assume "\<not> m \<le> n"
  then have "n < m" by simp
  then have "(2::rat) powi n < 2 powi m" by (intro power_int_strict_increasing) simp_all
  with assms show False by simp
qed

lemma to_double_unfold:
  assumes "x \<noteq> 0" "u = 2 powi (max (floor_log2 \<bar>x\<bar> - 52) (- 1074))"
    "n = round_half_even (x / u)" "- (2 ^ 1024) < of_int n * u" "of_int n * u < 2 ^ 1024"
  shows "to_double x = Num (of_int n * u)"
  using assms by (simp add: to_double_def Let_def)

text \<open>The value of \<open>to_double\<close> below a power of two.\<close>

lemma to_double_le_pow2:
  assumes x: "0 < x" and le: "x \<le> 2 powi m" and m: "- 1074 \<le> m" "m \<le> 1023"
  shows "\<exists>y. to_double x = Num y \<and> 0 \<le> y \<and> y \<le> 2 powi m"
proof -
  define k where "k = max (floor_log2 x - 52) (- 1074)"
  define u :: rat where "u = 2 powi k"
  define n where "n = round_half_even (x / u)"
  have u: "0 < u" by (simp add: u_def)
  have "2 powi (floor_log2 x) \<le> x" using floor_log2_bounds [OF x] by simp
  with le have "(2::rat) powi (floor_log2 x) \<le> 2 powi m" by simp
  then have "floor_log2 x \<le> m" by (rule pow2_le_cancel)
  then have km: "k \<le> m" using m x by (simp add: k_def)
  have "x / u \<le> 2 powi m / u" using le u by (simp add: divide_right_mono)
  also have "\<dots> = 2 powi (m - k)" by (simp add: u_def power_int_diff)
  also have "\<dots> = of_int (2 ^ nat (m - k))" using km by (simp add: power_int_nonneg_exp)
  finally have "n \<le> 2 ^ nat (m - k)" unfolding n_def by (rule round_half_even_le)
  then have "(of_int n :: rat) \<le> of_int (2 ^ nat (m - k))" by (simp only: of_int_le_iff)
  then have "of_int n * u \<le> of_int (2 ^ nat (m - k)) * u" using u by (simp add: mult_right_mono)
  also have "\<dots> = 2 powi (m - k) * 2 powi k" using km by (simp add: u_def power_int_nonneg_exp)
  also have "\<dots> = 2 powi m" by (simp flip: power_int_add)
  finally have yle: "of_int n * u \<le> 2 powi m" .
  have "(2::rat) powi m \<le> 2 powi 1023" using m by (intro power_int_increasing) simp_all
  also have "\<dots> < 2 ^ 1024" by simp
  finally have small: "of_int n * u < 2 ^ 1024" using yle by simp
  have "(of_int 0 :: rat) \<le> x / u" using x u by simp
  then have "0 \<le> n" unfolding n_def by (rule round_half_even_ge)
  then have y0: "0 \<le> of_int n * u" using u by simp
  have "to_double x = Num (of_int n * u)"
    using x small y0 by (intro to_double_unfold) (simp_all add: u_def k_def n_def)
  with y0 yle show ?thesis by blast
qed

text \<open>The value of \<open>to_double\<close> on a positive number of known binary exponent.\<close>

lemma to_double_normal:
  assumes x: "2 powi e \<le> x" "x < 2 powi (e + 1)" and e: "- 1022 \<le> e" "e \<le> 1022"
  shows "to_double x = Num (of_int (round_half_even (x / 2 powi (e - 52))) * 2 powi (e - 52))"
proof -
  have pos: "0 < x" using x(1) zero_less_power_int [of "2::rat" e] by linarith
  have fl: "floor_log2 x = e" using pos x by (simp add: floor_log2_unique)
  define u :: rat where "u = 2 powi (e - 52)"
  define n where "n = round_half_even (x / u)"
  have u: "0 < u" by (simp add: u_def)
  have k: "max (e - 52) (- 1074) = e - 52" using e by simp
  have "x / u \<le> 2 powi (e + 1) / u" using x(2) u by (simp add: divide_right_mono)
  also have "\<dots> = 2 powi (e + 1 - (e - 52))" unfolding u_def by (rule power_int_diff [symmetric]) simp
  also have "\<dots> = of_int (2 ^ 53)" by simp
  finally have "n \<le> 2 ^ 53" unfolding n_def by (rule round_half_even_le)
  then have "(of_int n :: rat) \<le> of_int (2 ^ 53)" by (simp only: of_int_le_iff)
  then have "of_int n * u \<le> of_int (2 ^ 53) * u" using u by (simp add: mult_right_mono)
  also have "\<dots> = 2 powi 53 * 2 powi (e - 52)" by (simp add: u_def)
  also have "\<dots> = 2 powi (53 + (e - 52))" by (rule power_int_add [symmetric]) simp
  also have "\<dots> = 2 powi (e + 1)" by (rule arg_cong [where f = "power_int 2"]) simp
  also have "\<dots> \<le> 2 powi 1023" using e by (intro power_int_increasing) simp_all
  also have "\<dots> < 2 ^ 1024" by simp
  finally have small: "of_int n * u < 2 ^ 1024" .
  have "(of_int 0 :: rat) \<le> x / u" using pos u by simp
  then have "0 \<le> n" unfolding n_def by (rule round_half_even_ge)
  then have y0: "0 \<le> of_int n * u" using u by simp
  have "to_double x = Num (of_int n * u)"
    using pos small y0 by (intro to_double_unfold) (simp_all add: u_def fl k n_def)
  then show ?thesis by (simp add: n_def u_def)
qed

lemma to_double_zero [simp]: "to_double 0 = Num 0"
  by (simp add: to_double_def)

lemma is_double_grid:
  assumes "is_double x" "x \<noteq> 0"
  shows "x = of_int (round_half_even (x / 2 powi max (floor_log2 \<bar>x\<bar> - 52) (- 1074)))
               * 2 powi max (floor_log2 \<bar>x\<bar> - 52) (- 1074)"
  using assms by (auto simp add: is_double_def to_double_def Let_def split: if_splits)

text \<open>The largest double below 1 is \<open>1 - 2^-53\<close>.\<close>

lemma is_double_below_one:
  assumes d: "is_double r" and r: "0 \<le> r" "r < 1"
  shows "r \<le> 1 - 1 / 2 ^ 53"
proof (cases "r = 0")
  case True
  then show ?thesis by simp
next
  case False
  with r have pos: "0 < r" by simp
  define e where "e = floor_log2 r"
  have lo: "2 powi e \<le> r" and hi: "r < 2 powi (e + 1)"
    using floor_log2_bounds [OF pos] by (simp_all add: e_def)
  have "(2::rat) powi e < 2 powi 0" using lo r by simp
  then have e0: "e < 0" by (rule pow2_less_cancel)
  show ?thesis
  proof (cases "e = - 1")
    case True
    define n where "n = round_half_even (r / 2 powi (- 53))"
    have "r = of_int n * 2 powi (- 53)"
      using is_double_grid [OF d False] pos True by (simp add: e_def [symmetric] n_def)
    then have rn: "r = of_int n / 2 ^ 53" by (simp add: power_int_minus_divide)
    with r have "(of_int n :: rat) < of_int (2 ^ 53)" by (simp add: divide_less_eq)
    then have "n < 2 ^ 53" by (simp only: of_int_less_iff)
    then have "n \<le> 2 ^ 53 - 1" by simp
    then have "(of_int n :: rat) \<le> of_int (2 ^ 53 - 1)" by (simp only: of_int_le_iff)
    then show ?thesis unfolding rn by (simp add: field_simps)
  next
    case False
    with e0 have "e + 1 \<le> - 1" by simp
    then have "(2::rat) powi (e + 1) \<le> 2 powi (- 1)" by (intro power_int_increasing) simp_all
    with hi have "r < 1 / 2" by simp
    then show ?thesis by simp
  qed
qed

lemma to_double_below:
  assumes x: "2 powi e \<le> p" "p < 2 powi (e + 1)" and e: "- 1022 \<le> e" "e \<le> 1022"
    and b: "p / 2 powi (e - 52) + 1 / 2 < of_int N"
  shows "\<exists>y. to_double p = Num y \<and> 0 \<le> y \<and> y \<le> of_int (N - 1) * 2 powi (e - 52)"
proof -
  define n where "n = round_half_even (p / 2 powi (e - 52))"
  have pos: "0 < p" using x(1) zero_less_power_int [of "2::rat" e] by linarith
  have v: "to_double p = Num (of_int n * 2 powi (e - 52))"
    unfolding n_def using x e by (rule to_double_normal)
  have "n \<le> N - 1" unfolding n_def using b by (rule round_half_even_below)
  then have "(of_int n :: rat) \<le> of_int (N - 1)" by (simp only: of_int_le_iff)
  then have up: "of_int n * 2 powi (e - 52) \<le> of_int (N - 1) * (2::rat) powi (e - 52)"
    by (intro mult_right_mono) simp_all
  have "(of_int 0 :: rat) \<le> p / 2 powi (e - 52)" using pos by simp
  then have "0 \<le> n" unfolding n_def by (rule round_half_even_ge)
  then have "0 \<le> of_int n * (2::rat) powi (e - 52)" by simp
  with v up show ?thesis by blast
qed

lemma scaled_draw_20:
  assumes d: "is_double r" and r: "0 \<le> r" "r < 1"
  shows "\<exists>y. js_mul (Num r) (Num 20) = Num y \<and> 0 \<le> y \<and> y < 20"
proof -
  have top: "r * 20 \<le> 20 - 20 / 2 ^ 53"
    using is_double_below_one [OF d r] by simp
  consider "r * 20 = 0" | "0 < r * 20" "r * 20 \<le> 16" | "16 \<le> r * 20" using r by fastforce
  then have "\<exists>y. to_double (r * 20) = Num y \<and> 0 \<le> y \<and> y < 20"
  proof cases
    case 1
    then show ?thesis by simp
  next
    case 2
    have "\<exists>y. to_double (r * 20) = Num y \<and> 0 \<le> y \<and> y \<le> 2 powi 4"
      using 2 by (intro to_double_le_pow2) simp_all
    then show ?thesis by fastforce
  next
    case 3
    have "\<exists>y. to_double (r * 20) = Num y \<and> 0 \<le> y
              \<and> y \<le> of_int (20 * 2 ^ 48 - 1) * 2 powi (4 - 52)"
      using 3 r top by (intro to_double_below) simp_all
    then show ?thesis by fastforce
  qed
  then show ?thesis by simp
qed

lemma scaled_draw_15:
  assumes d: "is_double r" and r: "0 \<le> r" "r < 1"
  shows "\<exists>y. js_mul (Num r) (Num 15) = Num y \<and> 0 \<le> y \<and> y < 15"
proof -
  have top: "r * 15 \<le> 15 - 15 / 2 ^ 53"
    using is_double_below_one [OF d r] by simp
  consider "r * 15 = 0" | "0 < r * 15" "r * 15 \<le> 8" | "8 \<le> r * 15" using r by fastforce
  then have "\<exists>y. to_double (r * 15) = Num y \<and> 0 \<le> y \<and> y < 15"
  proof cases
    case 1
    then show ?thesis by simp
  next
    case 2
    have "\<exists>y. to_double (r * 15) = Num y \<and> 0 \<le> y \<and> y \<le> 2 powi 3"
      using 2 by (intro to_double_le_pow2) simp_all
    then show ?thesis by fastforce
  next
    case 3
    have "\<exists>y. to_double (r * 15) = Num y \<and> 0 \<le> y
              \<and> y \<le> of_int (15 * 2 ^ 49 - 1) * 2 powi (3 - 52)"
      using 3 r top by (intro to_double_below) simp_all
    then show ?thesis by fastforce
  qed
  then show ?thesis by simp
qed

text \<open>The Number value of an integer is an integer or an infinity.\<close>

lemma to_double_of_int_cases:
  "to_double (of_int n) = PosInf \<or> to_double (of_int n) = NegInf
   \<or> (\<exists>m. to_double (of_int n) = Num (of_int m))"
proof (cases "n = 0")
  case True
  have "to_double (of_int n) = Num (of_int 0)" using True by simp
  then show ?thesis by blast
next
  case False
  define x :: rat where "x = of_int n"
  define e where "e = floor_log2 \<bar>x\<bar>"
  define u :: rat where "u = 2 powi (e - 52)"
  define r where "r = round_half_even (x / u)"
  have x0: "x \<noteq> 0" using False by (simp add: x_def)
  have "\<bar>x\<bar> = of_int \<bar>n\<bar>" by (simp add: x_def)
  moreover have "1 \<le> \<bar>n\<bar>" using False by simp
  ultimately have one: "1 \<le> \<bar>x\<bar>" by (simp only: of_int_1_le_iff)
  then have pos: "0 < \<bar>x\<bar>" by simp
  have "\<bar>x\<bar> < 2 powi (e + 1)" using floor_log2_bounds [OF pos] by (simp add: e_def)
  with one have "(2::rat) powi 0 < 2 powi (e + 1)" by simp
  then have e0: "0 \<le> e" using pow2_less_cancel [of 0 "e + 1"] by simp
  then have k: "max (e - 52) (- 1074) = e - 52" by simp
  have cases: "to_double x = PosInf \<or> to_double x = NegInf \<or> to_double x = Num (of_int r * u)"
    using x0 by (simp add: to_double_def Let_def e_def [symmetric] k u_def [symmetric] r_def [symmetric])
  have "\<exists>m. of_int r * u = (of_int m :: rat)"
  proof (cases "52 \<le> e")
    case True
    then have "u = of_int (2 ^ nat (e - 52))" by (simp add: u_def power_int_nonneg_exp)
    then have "of_int r * u = of_int (r * 2 ^ nat (e - 52))" by simp
    then show ?thesis by blast
  next
    case False
    have "x / u = x * 2 powi (52 - e)"
      unfolding u_def using power_int_minus_divide [of "2::rat" "52 - e"] by (simp add: field_simps)
    also have "\<dots> = of_int (n * 2 ^ nat (52 - e))"
      using False by (simp add: x_def power_int_nonneg_exp)
    finally have q: "x / u = of_int (n * 2 ^ nat (52 - e))" .
    have "of_int r * u = x / u * u" unfolding r_def by (simp only: q round_half_even_of_int)
    also have "\<dots> = of_int n" by (simp add: u_def x_def)
    finally show ?thesis by blast
  qed
  with cases show ?thesis unfolding x_def by auto
qed

lemma to_double_overflow:
  assumes "2 ^ 1024 \<le> x"
  shows "to_double x = PosInf"
proof -
  define e where "e = floor_log2 x"
  define u :: rat where "u = 2 powi (e - 52)"
  have pos: "0 < x" using assms by (rule less_le_trans [rotated]) simp
  have lo: "2 powi e \<le> x" and hi: "x < 2 powi (e + 1)"
    using floor_log2_bounds [OF pos] by (simp_all add: e_def)
  have "(2::rat) powi 1024 < 2 powi (e + 1)" using assms hi by simp
  then have e1: "1024 \<le> e" using pow2_less_cancel [of 1024 "e + 1"] by simp
  then have k: "max (e - 52) (- 1074) = e - 52" by simp
  have upos: "0 < u" by (simp add: u_def)
  have "2 powi e / u = 2 powi (e - (e - 52))" unfolding u_def by (rule power_int_diff [symmetric]) simp
  then have "(of_int (2 ^ 52) :: rat) = 2 powi e / u" by simp
  also have "\<dots> \<le> x / u" using lo upos by (simp add: divide_right_mono)
  finally have "2 ^ 52 \<le> round_half_even (x / u)" by (rule round_half_even_ge)
  then have "(of_int (2 ^ 52) :: rat) \<le> of_int (round_half_even (x / u))" by (simp only: of_int_le_iff)
  then have "of_int (2 ^ 52) * u \<le> of_int (round_half_even (x / u)) * u"
    using upos by (simp add: mult_right_mono)
  moreover have "of_int (2 ^ 52) * u = 2 powi (52 + (e - 52))"
  proof -
    have "(2::rat) powi (52 + (e - 52)) = 2 powi 52 * 2 powi (e - 52)"
      by (rule power_int_add) simp
    then show ?thesis by (simp add: u_def)
  qed
  moreover have "(2::rat) powi 1024 \<le> 2 powi (52 + (e - 52))"
    using e1 by (intro power_int_increasing) simp_all
  ultimately have "2 ^ 1024 \<le> of_int (round_half_even (x / u)) * u" by simp
  then show ?thesis
    using pos by (simp add: to_double_def Let_def e_def [symmetric] k u_def [symmetric])
qed

text \<open>An integer of magnitude below \<open>2^53\<close> is a double.\<close>

lemma to_double_int_exact:
  assumes n: "\<bar>n\<bar> < 2 ^ 53"
  shows "to_double (of_int n) = Num (of_int n)"
proof (cases "n = 0")
  case True
  then show ?thesis by simp
next
  case False
  define x :: rat where "x = of_int n"
  define e where "e = floor_log2 \<bar>x\<bar>"
  define u :: rat where "u = 2 powi (e - 52)"
  have x0: "x \<noteq> 0" using False by (simp add: x_def)
  have ax: "\<bar>x\<bar> = of_int \<bar>n\<bar>" by (simp add: x_def)
  have "1 \<le> \<bar>n\<bar>" using False by simp
  then have one: "1 \<le> \<bar>x\<bar>" unfolding ax by (simp only: of_int_1_le_iff)
  then have pos: "0 < \<bar>x\<bar>" by simp
  have lo: "2 powi e \<le> \<bar>x\<bar>" and hi: "\<bar>x\<bar> < 2 powi (e + 1)"
    using floor_log2_bounds [OF pos] by (simp_all add: e_def)
  have "(2::rat) powi 0 < 2 powi (e + 1)" using one hi by simp
  then have e0: "0 \<le> e" using pow2_less_cancel [of 0 "e + 1"] by simp
  have big: "\<bar>x\<bar> < of_int (2 ^ 53)" unfolding ax using n by (simp only: of_int_less_iff)
  then have "(2::rat) powi e < 2 powi 53" using lo by simp
  then have e52: "e \<le> 52" using pow2_less_cancel [of e 53] by simp
  have k: "max (e - 52) (- 1074) = e - 52" using e0 by simp
  have "x / u = x * 2 powi (52 - e)"
    unfolding u_def using power_int_minus_divide [of "2::rat" "52 - e"] by (simp add: field_simps)
  also have "\<dots> = of_int (n * 2 ^ nat (52 - e))"
    using e52 by (simp add: x_def power_int_nonneg_exp)
  finally have q: "x / u = of_int (n * 2 ^ nat (52 - e))" .
  have "of_int (round_half_even (x / u)) * u = x / u * u"
    by (simp only: q round_half_even_of_int)
  also have "\<dots> = x" by (simp add: u_def)
  finally have y: "of_int (round_half_even (x / u)) * u = x" .
  have "\<bar>x\<bar> < 2 ^ 1024" using big by simp
  then have r: "- (2 ^ 1024) < x" "x < 2 ^ 1024" by (simp_all add: abs_less_iff)
  have "to_double x = Num (of_int (round_half_even (x / u)) * u)"
  proof (rule to_double_unfold [where n = "round_half_even (x / u)" and u = u and x = x])
    show "x \<noteq> 0" by (rule x0)
    show "u = 2 powi max (floor_log2 \<bar>x\<bar> - 52) (- 1074)"
      unfolding u_def e_def [symmetric] k ..
    show "round_half_even (x / u) = round_half_even (x / u)" ..
    show "- (2 ^ 1024) < of_int (round_half_even (x / u)) * u" unfolding y by (rule r(1))
    show "of_int (round_half_even (x / u)) * u < 2 ^ 1024" unfolding y by (rule r(2))
  qed
  then have "to_double x = Num x" by (simp only: y)
  then show ?thesis by (simp only: x_def)
qed

section \<open>Properties of the histogram\<close>

lemma bins_values:
  "bins = [Num 0, Num (3602879701896397 / 36028797018963968),
           Num (3602879701896397 / 18014398509481984),
           Num (5404319552844595 / 18014398509481984),
           Num (3602879701896397 / 9007199254740992),
           Num (1 / 2),
           Num (5404319552844595 / 9007199254740992),
           Num (3152519739159347 / 4503599627370496),
           Num (3602879701896397 / 4503599627370496),
           Num (8106479329266893 / 9007199254740992),
           Num 1]"
proof -
  have 0: "to_double 0 = Num 0" by (simp add: to_double_def)
  have 1: "to_double (1 / 10) = Num (3602879701896397 / 36028797018963968)"
    by (simp add: to_double_normal [where e = "- 4"] round_half_even_def Let_def floor_rat_numeral)
  have 2: "to_double (2 / 10) = Num (3602879701896397 / 18014398509481984)"
    by (simp add: to_double_normal [where e = "- 3"] round_half_even_def Let_def floor_rat_numeral)
  have 3: "to_double (3 / 10) = Num (5404319552844595 / 18014398509481984)"
    by (simp add: to_double_normal [where e = "- 2"] round_half_even_def Let_def floor_rat_numeral)
  have 4: "to_double (4 / 10) = Num (3602879701896397 / 9007199254740992)"
    by (simp add: to_double_normal [where e = "- 2"] round_half_even_def Let_def floor_rat_numeral)
  have 5: "to_double (5 / 10) = Num (1 / 2)"
    by (simp add: to_double_normal [where e = "- 1"] round_half_even_def Let_def floor_rat_numeral)
  have 6: "to_double (6 / 10) = Num (5404319552844595 / 9007199254740992)"
    by (simp add: to_double_normal [where e = "- 1"] round_half_even_def Let_def floor_rat_numeral)
  have 7: "to_double (7 / 10) = Num (3152519739159347 / 4503599627370496)"
    by (simp add: to_double_normal [where e = "- 1"] round_half_even_def Let_def floor_rat_numeral)
  have 8: "to_double (8 / 10) = Num (3602879701896397 / 4503599627370496)"
    by (simp add: to_double_normal [where e = "- 1"] round_half_even_def Let_def floor_rat_numeral)
  have 9: "to_double (9 / 10) = Num (8106479329266893 / 9007199254740992)"
    by (simp add: to_double_normal [where e = "- 1"] round_half_even_def Let_def floor_rat_numeral)
  have 10: "to_double 1 = Num 1"
    by (simp add: to_double_normal [where e = "0"] round_half_even_def Let_def)
  show ?thesis
    unfolding bins_def 0 1 2 3 4 5 6 7 8 9 10 ..
qed

lemma decimal_digits_values:
  "decimal_digits 0 = ''0''" "decimal_digits 10 = ''10''" "decimal_digits 20 = ''20''"
  "decimal_digits 30 = ''30''" "decimal_digits 40 = ''40''" "decimal_digits 50 = ''50''"
  "decimal_digits 60 = ''60''" "decimal_digits 70 = ''70''" "decimal_digits 80 = ''80''"
  "decimal_digits 90 = ''90''" "decimal_digits 100 = ''100''"
  by code_simp+

lemma edge_percent:
  "toFixed0 (js_mul (Num 0) (Num 100)) = ''0''"
  "toFixed0 (js_mul (Num (3602879701896397 / 36028797018963968)) (Num 100)) = ''10''"
  "toFixed0 (js_mul (Num (3602879701896397 / 18014398509481984)) (Num 100)) = ''20''"
  "toFixed0 (js_mul (Num (5404319552844595 / 18014398509481984)) (Num 100)) = ''30''"
  "toFixed0 (js_mul (Num (3602879701896397 / 9007199254740992)) (Num 100)) = ''40''"
  "toFixed0 (js_mul (Num (1 / 2)) (Num 100)) = ''50''"
  "toFixed0 (js_mul (Num (5404319552844595 / 9007199254740992)) (Num 100)) = ''60''"
  "toFixed0 (js_mul (Num (3152519739159347 / 4503599627370496)) (Num 100)) = ''70''"
  "toFixed0 (js_mul (Num (3602879701896397 / 4503599627370496)) (Num 100)) = ''80''"
  "toFixed0 (js_mul (Num (8106479329266893 / 9007199254740992)) (Num 100)) = ''90''"
  "toFixed0 (js_mul (Num 1) (Num 100)) = ''100''"
proof -
  note ev = round_half_even_def Let_def floor_rat_numeral decimal_digits_values
  show "toFixed0 (js_mul (Num 0) (Num 100)) = ''0''"
    by (simp add: to_double_def ev)
  show "toFixed0 (js_mul (Num (3602879701896397 / 36028797018963968)) (Num 100)) = ''10''"
    by (simp add: to_double_normal [where e = 3] ev)
  show "toFixed0 (js_mul (Num (3602879701896397 / 18014398509481984)) (Num 100)) = ''20''"
    by (simp add: to_double_normal [where e = 4] ev)
  show "toFixed0 (js_mul (Num (5404319552844595 / 18014398509481984)) (Num 100)) = ''30''"
    by (simp add: to_double_normal [where e = 4] ev)
  show "toFixed0 (js_mul (Num (3602879701896397 / 9007199254740992)) (Num 100)) = ''40''"
    by (simp add: to_double_normal [where e = 5] ev)
  show "toFixed0 (js_mul (Num (1 / 2)) (Num 100)) = ''50''"
    by (simp add: to_double_normal [where e = 5] ev)
  show "toFixed0 (js_mul (Num (5404319552844595 / 9007199254740992)) (Num 100)) = ''60''"
    by (simp add: to_double_normal [where e = 5] ev)
  show "toFixed0 (js_mul (Num (3152519739159347 / 4503599627370496)) (Num 100)) = ''70''"
    by (simp add: to_double_normal [where e = 6] ev)
  show "toFixed0 (js_mul (Num (3602879701896397 / 4503599627370496)) (Num 100)) = ''80''"
    by (simp add: to_double_normal [where e = 6] ev)
  show "toFixed0 (js_mul (Num (8106479329266893 / 9007199254740992)) (Num 100)) = ''90''"
    by (simp add: to_double_normal [where e = 6] ev)
  show "toFixed0 (js_mul (Num 1) (Num 100)) = ''100''"
    by (simp add: to_double_normal [where e = 6] ev)
qed

lemma bins_edges: "bins = map Num edges"
  by (simp add: bins_values edges_def)

lemma edges_facts: "sorted edges" "length edges = 11" "hd edges = 0" "last edges = 1"
  by (simp_all add: edges_def)

lemma count_chain:
  fixes es :: "rat list"
  assumes "sorted es" "es \<noteq> []"
  shows "length (filter (\<lambda>i. es ! i \<le> c \<and> c < es ! (i + 1)) [0 ..< length es - 1])
         = (if hd es \<le> c \<and> c < last es then 1 else 0)"
  using assms
proof (induction es)
  case Nil
  then show ?case by simp
next
  case (Cons a es)
  show ?case
  proof (cases es)
    case Nil
    then show ?thesis by simp
  next
    case (Cons b rest)
    have s: "sorted es" "es \<noteq> []" using Cons.prems Cons by simp_all
    have ab: "a \<le> b" and bl: "b \<le> last es" using Cons.prems Cons by auto
    have "[0 ..< length (a # es) - 1] = [0 ..< Suc (length rest)]"
      using Cons by simp
    also have "\<dots> = 0 # [Suc 0 ..< Suc (length rest)]"
      by (rule upt_conv_Cons) simp
    also have "\<dots> = 0 # map Suc [0 ..< length rest]"
      by (simp only: map_Suc_upt)
    also have "\<dots> = 0 # map Suc [0 ..< length es - 1]"
      using Cons by simp
    finally have idx: "[0 ..< length (a # es) - 1] = 0 # map Suc [0 ..< length es - 1]" .
    have "length (filter (\<lambda>i. (a # es) ! i \<le> c \<and> c < (a # es) ! (i + 1)) [0 ..< length (a # es) - 1])
          = (if a \<le> c \<and> c < b then 1 else 0)
            + length (filter (\<lambda>i. es ! i \<le> c \<and> c < es ! (i + 1)) [0 ..< length es - 1])"
      unfolding idx using Cons by (simp add: filter_map comp_def)
    also have "\<dots> = (if a \<le> c \<and> c < b then 1 else 0) + (if b \<le> c \<and> c < last es then 1 else 0)"
      using Cons.IH [OF s] Cons by simp
    also have "\<dots> = (if a \<le> c \<and> c < last (a # es) then 1 else 0)"
      using ab bl s by auto
    finally show ?thesis by simp
  qed
qed

lemma zip_upt_nth: "zip xs [0 ..< length xs] = map (\<lambda>i. (xs ! i, i)) [0 ..< length xs]"
  by (rule nth_equalityI) simp_all

lemma histogram_by_index:
  "histogram ps =
     map (\<lambda>i. \<lparr> bin = bin_label (bins ! i) (bins ! (i + 1)),
                count = length (filter (\<lambda>p. js_ge (confidence p) (bins ! i)
                                          \<and> js_lt (confidence p) (bins ! (i + 1))) ps) \<rparr>)
         [0 ..< 10]"
proof -
  have lb: "length bins = 11" by (simp add: bins_edges edges_facts)
  have l: "length (butlast bins) = 10" by (simp add: lb)
  have "zip (butlast bins) [0 ..< length (butlast bins)]
        = map (\<lambda>i. (butlast bins ! i, i)) [0 ..< length (butlast bins)]"
    by (rule zip_upt_nth)
  also have "\<dots> = map (\<lambda>i. (bins ! i, i)) [0 ..< 10]"
    unfolding l by (rule map_cong) (simp_all add: nth_butlast lb)
  finally show ?thesis
    by (simp add: histogram_def comp_def)
qed

lemma sum_filter_swap:
  "sum_list (map (\<lambda>i. length (filter (\<lambda>p. P i p) ps)) is)
   = sum_list (map (\<lambda>p. length (filter (\<lambda>i. P i p) is)) ps)"
proof (induction ps)
  case Nil
  show ?case by simp
next
  case (Cons p ps)
  have "sum_list (map (\<lambda>i. length (filter (\<lambda>q. P i q) (p # ps))) is)
        = sum_list (map (\<lambda>i. (if P i p then 1 else 0) + length (filter (\<lambda>q. P i q) ps)) is)"
    by (rule arg_cong [where f = sum_list], rule map_cong) simp_all
  also have "\<dots> = sum_list (map (\<lambda>i. if P i p then 1 else 0) is)
                  + sum_list (map (\<lambda>i. length (filter (\<lambda>q. P i q) ps)) is)"
    by (simp add: sum_list_addf)
  also have "sum_list (map (\<lambda>i. if P i p then 1 else 0) is) = length (filter (\<lambda>i. P i p) is)"
    by (induction "is") simp_all
  finally show ?case using Cons.IH by simp
qed

text \<open>Whether a confidence is counted by some bar: it lies in \<open>[0, 1)\<close>.\<close>

lemma bars_of_confidence:
  "length (filter (\<lambda>i. js_ge c (bins ! i) \<and> js_lt c (bins ! (i + 1))) [0 ..< 10])
   = (if js_ge c (Num 0) \<and> js_lt c (Num 1) then 1 else 0)"
proof -
  have eq: "filter (\<lambda>i. js_ge c (bins ! i) \<and> js_lt c (bins ! (i + 1))) [0 ..< 10]
        = filter (\<lambda>i. js_ge c (Num (edges ! i)) \<and> js_lt c (Num (edges ! (i + 1)))) [0 ..< 10]"
    by (rule filter_cong) (simp_all add: bins_edges edges_facts)
  show ?thesis
  proof (cases c)
    case (Num x)
    have "length (filter (\<lambda>i. edges ! i \<le> x \<and> x < edges ! (i + 1)) [0 ..< length edges - 1])
          = (if hd edges \<le> x \<and> x < last edges then 1 else 0)"
      by (rule count_chain) (simp_all add: edges_facts, simp add: edges_def)
    then show ?thesis unfolding eq using Num by (simp add: edges_facts)
  next
    case NaN
    then show ?thesis by simp
  next
    case PosInf
    then show ?thesis unfolding eq by simp
  next
    case NegInf
    then show ?thesis unfolding eq by simp
  qed
qed

lemma histogram_total:
  "sum_list (map count (histogram ps))
   = length (filter (\<lambda>p. js_ge (confidence p) (Num 0) \<and> js_lt (confidence p) (Num 1)) ps)"
proof -
  have "sum_list (map count (histogram ps))
        = sum_list (map (\<lambda>i. length (filter (\<lambda>p. js_ge (confidence p) (bins ! i)
                                          \<and> js_lt (confidence p) (bins ! (i + 1))) ps)) [0 ..< 10])"
    by (simp add: histogram_by_index comp_def)
  also have "\<dots> = sum_list (map (\<lambda>p. length (filter (\<lambda>i. js_ge (confidence p) (bins ! i)
                                          \<and> js_lt (confidence p) (bins ! (i + 1))) [0 ..< 10])) ps)"
    by (rule sum_filter_swap)
  also have "\<dots> = sum_list (map (\<lambda>p. if js_ge (confidence p) (Num 0) \<and> js_lt (confidence p) (Num 1)
                                     then 1 else 0) ps)"
    by (simp only: bars_of_confidence)
  also have "\<dots> = length (filter (\<lambda>p. js_ge (confidence p) (Num 0) \<and> js_lt (confidence p) (Num 1)) ps)"
    by (induction ps) simp_all
  finally show ?thesis .
qed

text \<open>
  Bar \<open>i\<close> counts the results whose confidence \<open>c\<close> satisfies
  \<open>edges ! i \<le> c < edges ! (i + 1)\<close>, the upper edge excluded for every bar.
\<close>

lemma histogram_bar_count:
  assumes "i < 10"
  shows "count (histogram ps ! i)
         = length (filter (\<lambda>p. js_ge (confidence p) (Num (edges ! i))
                              \<and> js_lt (confidence p) (Num (edges ! (i + 1)))) ps)"
  using assms by (simp add: histogram_by_index bins_edges edges_facts)

text \<open>
  The histogram the effect of \<open>ConfidenceChart\<close> computes: ten bars, whose counts sum to
  the number of results of the snapshot that have a confidence in \<open>[0, 1)\<close>.
\<close>

lemma ConfidenceChart_effect_total:
  assumes "ConfidenceChart_effect svgRef_current predictionHistory filterType = Some h"
  shows "length h = 10
         \<and> sum_list (map count h)
           = length (filter (\<lambda>p. js_ge (confidence p) (Num 0) \<and> js_lt (confidence p) (Num 1))
                       (allPredictions predictionHistory filterType))"
proof -
  have "h = histogram (allPredictions predictionHistory filterType)"
    using assms by (simp add: ConfidenceChart_effect_def Let_def split: if_splits)
  moreover have "length (histogram (allPredictions predictionHistory filterType)) = 10"
    by (simp add: histogram_by_index)
  ultimately show ?thesis by (simp add: histogram_total)
qed

section \<open>Properties of the malware form\<close>

lemma update_keys: "k \<in> set (map fst al) \<Longrightarrow> map fst (AList.update k v al) = map fst al"
  by (induction al) auto

lemma formData_keys:
  "map fst MalwareDetector_formData =
     [''millisecond'', ''state'', ''usage_counter'', ''prio'', ''static_prio'', ''normal_prio'',
      ''policy'', ''vm_pgoff'', ''vm_truncate_count'', ''task_size'', ''cached_hole_size'',
      ''free_area_cache'', ''mm_users'', ''map_count'', ''hiwater_rss'', ''total_vm'',
      ''shared_vm'', ''exec_vm'', ''reserved_vm'', ''nr_ptes'', ''end_data'', ''last_interval'',
      ''nvcsw'', ''nivcsw'', ''min_flt'', ''maj_flt'', ''fs_excl_counter'', ''lock'', ''utime'',
      ''stime'', ''gtime'', ''cgtime'', ''signal_nvcsw'']"
  by (simp add: MalwareDetector_formData_def)

lemma loadExample_keys:
  assumes "map fst fd = map fst MalwareDetector_formData"
  shows "map fst (MalwareDetector_loadExample ty fd) = map fst MalwareDetector_formData"
proof -
  have k: "''static_prio'' \<in> set (map fst fd)" "''utime'' \<in> set (map fst fd)"
    "''free_area_cache'' \<in> set (map fst fd)" "''nvcsw'' \<in> set (map fst fd)"
    unfolding assms formData_keys by simp_all
  show ?thesis
    unfolding MalwareDetector_loadExample_def using k assms
    by (simp add: update_keys del: set_map)
qed

lemma form_run_snoc: "form_run (evs @ [e]) = form_step e (form_run evs)"
  by (simp add: form_run_def)

lemma input_names_keys:
  "set (input_names MalwareDetector_formData) = set (map fst MalwareDetector_formData)"
  unfolding input_names_def formData_keys importantFields_def by auto

lemma form_run_keys:
  assumes "\<forall>e \<in> set evs. \<forall>name val. e = Change name val \<longrightarrow> name \<in> set (map fst MalwareDetector_formData)"
  shows "map fst (form_run evs) = map fst MalwareDetector_formData"
  using assms
proof (induction evs rule: rev_induct)
  case Nil
  show ?case by (simp add: form_run_def)
next
  case (snoc e evs)
  then have IH: "map fst (form_run evs) = map fst MalwareDetector_formData" by simp
  show ?case
  proof (cases e)
    case (Change name val)
    with snoc.prems have "name \<in> set (map fst MalwareDetector_formData)" by simp
    then have "name \<in> set (map fst (form_run evs))" by (simp only: IH)
    then have "map fst (AList.update name (js_or_0 (parseInt val)) (form_run evs))
               = map fst (form_run evs)"
      by (rule update_keys)
    then show ?thesis
      by (simp add: form_run_snoc Change MalwareDetector_handleChange_def IH)
  next
    case (LoadExample ty)
    show ?thesis using IH by (simp add: form_run_snoc LoadExample loadExample_keys)
  qed
qed

section \<open>Properties of \<open>parseInt\<close>\<close>

lemma decimal_digit_facts:
  fixes c :: "16 word"
  assumes "0x30 \<le> c" "c \<le> 0x39"
  shows "\<not> is_white_space c" "c \<noteq> 0x2D" "c \<noteq> 0x2B" "c \<noteq> 0x78" "c \<noteq> 0x58"
    "digit_of c < 10" "digit_of c = unat c - 48"
proof -
  have u: "48 \<le> unat c" "unat c \<le> 57" using assms by (simp_all add: word_le_nat_alt)
  have ne: "\<And>k. unat k < 48 \<or> 57 < unat k \<Longrightarrow> c \<noteq> k" using u by auto
  show "\<not> is_white_space c"
    unfolding is_white_space_def using u by (auto simp add: word_le_nat_alt)
  show "c \<noteq> 0x2D" "c \<noteq> 0x2B" "c \<noteq> 0x78" "c \<noteq> 0x58" by (rule ne, simp)+
  show "digit_of c = unat c - 48" using assms by (simp add: digit_of_def)
  then show "digit_of c < 10" using u by simp
qed

lemma parseInt_digits_cases:
  "parseInt_digits sign R S = NaN \<or> (\<exists>n. parseInt_digits sign R S = to_double (of_int n))"
proof -
  have "(if b then NaN else to_double (of_int k)) = NaN
        \<or> (\<exists>n. (if b then NaN else to_double (of_int k)) = to_double (of_int n))" for b k
    by auto
  then show ?thesis unfolding parseInt_digits_def Let_def .
qed

lemma parseInt_cases:
  "parseInt s = NaN \<or> (\<exists>n. parseInt s = to_double (of_int n))"
  using parseInt_digits_cases by (simp add: parseInt_def split: prod.splits)

lemma js_or_0_parseInt_cases:
  "js_or_0 (parseInt s) = PosInf \<or> js_or_0 (parseInt s) = NegInf
   \<or> (\<exists>k. js_or_0 (parseInt s) = Num (of_int k))"
proof -
  have z: "Num 0 = Num (of_int 0)" by simp
  from parseInt_cases [of s] show ?thesis
  proof
    assume "parseInt s = NaN"
    then show ?thesis using z by (simp del: of_int_0)
  next
    assume "\<exists>n. parseInt s = to_double (of_int n)"
    then obtain n where n: "parseInt s = to_double (of_int n)" by blast
    from to_double_of_int_cases [of n] show ?thesis
    proof (elim disjE exE)
      fix m assume "to_double (of_int n) = Num (of_int m)"
      then have "js_or_0 (parseInt s) = (if m = 0 then Num (of_int 0) else Num (of_int m))"
        using n by simp
      then show ?thesis by (metis)
    qed (simp_all add: n)
  qed
qed

text \<open>A string that starts with decimal digits followed by a point.\<close>

lemma parseInt_digits_decimal:
  assumes "Z \<noteq> []" "\<forall>c \<in> set Z. 0x30 \<le> c \<and> c \<le> 0x39"
  shows "parseInt_digits sign 10 (Z @ 0x2E # rest)
           = to_double (of_int (sign * int (foldl (\<lambda>n c. n * 10 + (unat c - 48)) 0 Z)))"
    and "parseInt_digits sign 10 Z
           = to_double (of_int (sign * int (foldl (\<lambda>n c. n * 10 + (unat c - 48)) 0 Z)))"
proof -
  have all: "\<forall>c \<in> set Z. digit_of c < 10" using assms(2) decimal_digit_facts(6) by blast
  have fold: "foldl (\<lambda>n c. n * 10 + digit_of c) 0 Z = foldl (\<lambda>n c. n * 10 + (unat c - 48)) 0 Z"
    by (rule foldl_cong) (use assms(2) decimal_digit_facts(7) in auto)
  have dot: "\<not> digit_of (0x2E :: 16 word) < 10" by (simp add: digit_of_def)
  have tw: "takeWhile (\<lambda>c. digit_of c < 10) (Z @ 0x2E # rest) = Z"
    using all dot by (simp add: takeWhile_append2)
  have tw': "takeWhile (\<lambda>c. digit_of c < 10) Z = Z"
    using all by (simp add: takeWhile_eq_all_conv)
  show "parseInt_digits sign 10 (Z @ 0x2E # rest)
           = to_double (of_int (sign * int (foldl (\<lambda>n c. n * 10 + (unat c - 48)) 0 Z)))"
    using assms(1) by (simp add: parseInt_digits_def tw fold)
  show "parseInt_digits sign 10 Z
           = to_double (of_int (sign * int (foldl (\<lambda>n c. n * 10 + (unat c - 48)) 0 Z)))"
    using assms(1) by (simp add: parseInt_digits_def tw' fold)
qed

lemma parseInt_radix_decimal:
  assumes "Z \<noteq> []" "\<forall>c \<in> set Z. 0x30 \<le> c \<and> c \<le> 0x39"
  shows "parseInt_radix (Z @ 0x2E # rest) = (10, Z @ 0x2E # rest)"
    and "parseInt_radix Z = (10, Z)"
proof -
  obtain z zs where Z: "Z = z # zs" using assms(1) by (cases Z) auto
  have second: "zs \<noteq> [] \<Longrightarrow> hd zs \<noteq> 0x78 \<and> hd zs \<noteq> 0x58"
  proof -
    assume "zs \<noteq> []"
    then have "hd zs \<in> set Z" using Z by simp
    then have "0x30 \<le> hd zs \<and> hd zs \<le> 0x39" using assms(2) by blast
    then show ?thesis using decimal_digit_facts(4,5) by blast
  qed
  show "parseInt_radix (Z @ 0x2E # rest) = (10, Z @ 0x2E # rest)"
    using second unfolding parseInt_radix_def Z by (cases zs) simp_all
  show "parseInt_radix Z = (10, Z)"
    using second unfolding parseInt_radix_def Z by (cases zs) simp_all
qed

lemma parseInt_sign_decimal:
  assumes "Z \<noteq> []" "\<forall>c \<in> set Z. 0x30 \<le> c \<and> c \<le> 0x39"
  shows "parseInt_sign (Z @ S) = (1, Z @ S)" and "parseInt_sign (0x2D # S) = (- 1, S)"
proof -
  obtain z zs where Z: "Z = z # zs" using assms(1) by (cases Z) auto
  have dz: "0x30 \<le> z" "z \<le> 0x39" using assms(2) Z by simp_all
  show "parseInt_sign (Z @ S) = (1, Z @ S)"
    using decimal_digit_facts(2,3) [OF dz] by (simp add: parseInt_sign_def Z)
  show "parseInt_sign (0x2D # S) = (- 1, S)"
    by (simp add: parseInt_sign_def)
qed

lemma parseInt_decimal_point:
  assumes "Z \<noteq> []" "\<forall>c \<in> set Z. 0x30 \<le> c \<and> c \<le> 0x39"
  shows "parseInt (Z @ 0x2E # rest)
           = to_double (of_int (int (foldl (\<lambda>n c. n * 10 + (unat c - 48)) 0 Z)))"
    and "parseInt Z
           = to_double (of_int (int (foldl (\<lambda>n c. n * 10 + (unat c - 48)) 0 Z)))"
    and "parseInt (0x2D # Z @ 0x2E # rest)
           = to_double (of_int (- int (foldl (\<lambda>n c. n * 10 + (unat c - 48)) 0 Z)))"
    and "parseInt (0x2D # Z)
           = to_double (of_int (- int (foldl (\<lambda>n c. n * 10 + (unat c - 48)) 0 Z)))"
proof -
  obtain z zs where Z: "Z = z # zs" using assms(1) by (cases Z) auto
  have dz: "0x30 \<le> z" "z \<le> 0x39" using assms(2) Z by simp_all
  have ws: "\<not> is_white_space z" using decimal_digit_facts(1) [OF dz] .
  have dw: "dropWhile is_white_space (Z @ S) = Z @ S" for S using ws Z by simp
  have minus: "\<not> is_white_space (0x2D :: 16 word)" by (simp add: is_white_space_def)
  note sg = parseInt_sign_decimal [OF assms]
  note rd = parseInt_radix_decimal [OF assms]
  note dg = parseInt_digits_decimal [OF assms]
  show "parseInt (Z @ 0x2E # rest)
           = to_double (of_int (int (foldl (\<lambda>n c. n * 10 + (unat c - 48)) 0 Z)))"
    unfolding parseInt_def dw sg(1) by (simp only: prod.case rd dg) simp
  show "parseInt Z
           = to_double (of_int (int (foldl (\<lambda>n c. n * 10 + (unat c - 48)) 0 Z)))"
    using dw [of "[]"] sg(1) [of "[]"] by (simp add: parseInt_def rd dg)
  show "parseInt (0x2D # Z @ 0x2E # rest)
           = to_double (of_int (- int (foldl (\<lambda>n c. n * 10 + (unat c - 48)) 0 Z)))"
    using minus by (simp add: parseInt_def sg(2) rd dg)
  show "parseInt (0x2D # Z)
           = to_double (of_int (- int (foldl (\<lambda>n c. n * 10 + (unat c - 48)) 0 Z)))"
    using minus by (simp add: parseInt_def sg(2) rd dg)
qed

lemma foldl_decimal_zeros:
  "foldl (\<lambda>n c. n * 10 + (unat c - 48)) a (replicate k (0x30 :: 16 word)) = a * 10 ^ k"
  by (induction k arbitrary: a) simp_all

lemma parseInt_empty: "parseInt [] = NaN"
  by (simp add: parseInt_def parseInt_sign_def parseInt_radix_def parseInt_digits_def)

section \<open>Trend stream: capacity and eviction\<close>

lemma run_ticks_snoc: "run_ticks (ds @ [d]) = threatTrends_update d (run_ticks ds)"
  by (simp add: run_ticks_def)

lemma run_ticks_last20: "run_ticks ds = map new_point (drop (length ds - 20) ds)"
proof (induction ds rule: rev_induct)
  case Nil
  show ?case by (simp add: run_ticks_def)
next
  case (snoc d ds)
  show ?case
  proof (cases "20 \<le> length ds")
    case True
    then have "Suc (length ds) - 20 = Suc (length ds - 20)" by simp
    moreover have "drop (Suc (length ds - 20)) ds = tl (drop (length ds - 20) ds)"
      by (simp add: drop_Suc tl_drop)
    moreover have "drop (length ds - 20) ds \<noteq> []" using True by simp
    ultimately show ?thesis
      using True by (simp add: run_ticks_snoc snoc.IH threatTrends_update_def Let_def map_tl)
  next
    case False
    then show ?thesis
      by (simp add: run_ticks_snoc snoc.IH threatTrends_update_def Let_def)
  qed
qed

text \<open>
  C5.  After every tick the sequence of the trend stream holds at most 20 points: the
  state reached from the empty sequence by any ticks \<open>ds\<close> is the points of the last 20
  ticks in tick order.  A tick on a full sequence removes its oldest point and appends
  the new one.  After 25 ticks the sequence is the points of ticks 6 to 25 in order.
\<close>

theorem trend_stream_capacity_fifo:
  "length (run_ticks ds) \<le> 20
   \<and> run_ticks ds = map new_point (drop (length ds - 20) ds)
   \<and> (length prev = 20 \<longrightarrow> threatTrends_update d prev = tl prev @ [new_point d])
   \<and> (length prev \<le> 20 \<longrightarrow> length (threatTrends_update d prev) \<le> 20)
   \<and> (length ds = 25 \<longrightarrow> run_ticks ds = map new_point (drop 5 ds))"
proof -
  have a: "run_ticks ds = map new_point (drop (length ds - 20) ds)"
    by (rule run_ticks_last20)
  have b: "length (run_ticks ds) \<le> 20"
    by (simp add: a)
  have c: "length prev = 20 \<longrightarrow> threatTrends_update d prev = tl prev @ [new_point d]"
    by (cases prev) (simp_all add: threatTrends_update_def Let_def)
  have e: "length prev \<le> 20 \<longrightarrow> length (threatTrends_update d prev) \<le> 20"
    by (simp add: threatTrends_update_def Let_def)
  have f: "length ds = 25 \<longrightarrow> run_ticks ds = map new_point (drop 5 ds)"
    by (simp add: a)
  from a b c e f show ?thesis by blast
qed

theorem trend_stream_capacity_fifo_witness:
  "length ticks25 = 25
   \<and> length (run_ticks (take 20 ticks25)) = 20
   \<and> run_ticks ticks25 = map new_point (drop 5 ticks25)
   \<and> threatTrends_update (ticks25 ! 20) (run_ticks (take 20 ticks25))
       = tl (run_ticks (take 20 ticks25)) @ [new_point (ticks25 ! 20)]
   \<and> length (threatTrends_update (ticks25 ! 20) (run_ticks (take 20 ticks25))) \<le> 20"
proof -
  have l: "length ticks25 = 25" by (simp add: ticks25_def)
  have p: "length (run_ticks (take 20 ticks25)) = 20"
    using trend_stream_capacity_fifo [of "take 20 ticks25"] l by simp
  show ?thesis
    using trend_stream_capacity_fifo [of ticks25 "run_ticks (take 20 ticks25)" "ticks25 ! 20"] l p
    by simp
qed

section \<open>Claims about the histogram\<close>

text \<open>
  C1 (the code at the failing input).  The history holds three results, all in contract:
  spam results of confidence \<open>0.75\<close> and \<open>1.0\<close> and a malware result of confidence
  \<open>1.0\<close>.  The snapshot without a filter has 3 results and the effect computes ten bars
  whose counts sum to 1; the snapshot of kind malware has 1 result and the ten bars sum
  to 0.  The results of confidence \<open>1.0\<close> are the ones no bar counts.
\<close>

theorem histogram_total_confidence_one:
  "length (allPredictions history_with_confidence_1 ''all'') = 3
   \<and> ConfidenceChart_effect True history_with_confidence_1 ''all''
       = Some (histogram (allPredictions history_with_confidence_1 ''all''))
   \<and> length (histogram (allPredictions history_with_confidence_1 ''all'')) = 10
   \<and> sum_list (map count (histogram (allPredictions history_with_confidence_1 ''all''))) = 1
   \<and> length (allPredictions history_with_confidence_1 ''malware'') = 1
   \<and> ConfidenceChart_effect True history_with_confidence_1 ''malware''
       = Some (histogram (allPredictions history_with_confidence_1 ''malware''))
   \<and> sum_list (map count (histogram (allPredictions history_with_confidence_1 ''malware''))) = 0"
proof -
  have a: "allPredictions history_with_confidence_1 ''all''
           = [mk_entry (body_confidence (3 / 4)) ''spam'' 1, mk_entry body_confidence_1 ''spam'' 2,
              mk_entry body_malware_confidence_1 ''malware'' 3]"
    by (simp add: allPredictions_def history_with_confidence_1_def mk_entry_def)
  have m: "allPredictions history_with_confidence_1 ''malware''
           = [mk_entry body_malware_confidence_1 ''malware'' 3]"
    by (simp add: allPredictions_def history_with_confidence_1_def mk_entry_def)
  have ea: "ConfidenceChart_effect True history_with_confidence_1 ''all''
       = Some (histogram (allPredictions history_with_confidence_1 ''all''))"
    by (simp add: ConfidenceChart_effect_def a)
  have em: "ConfidenceChart_effect True history_with_confidence_1 ''malware''
       = Some (histogram (allPredictions history_with_confidence_1 ''malware''))"
    by (simp add: ConfidenceChart_effect_def m)
  have sa: "sum_list (map count (histogram (allPredictions history_with_confidence_1 ''all''))) = 1"
    unfolding a
    by (simp add: histogram_total mk_entry_def body_confidence_def body_confidence_1_def
        body_malware_confidence_1_def)
  have sm: "sum_list (map count (histogram (allPredictions history_with_confidence_1 ''malware''))) = 0"
    unfolding m by (simp add: histogram_total mk_entry_def body_malware_confidence_1_def)
  have l: "length (histogram (allPredictions history_with_confidence_1 ''all'')) = 10"
    by (simp add: histogram_by_index)
  from a m ea em sa sm l show ?thesis by simp
qed

text \<open>
  C2 (the code at the failing input).  A result of confidence exactly \<open>1.0\<close> is counted
  by no bar: the histogram of a snapshot holding only that result has ten bars, the last
  one labelled \<open>90-100%\<close>, and every count is 0, the last one included.
\<close>

theorem histogram_confidence_one_dropped:
  "length (histogram [mk_entry body_confidence_1 ''spam'' 0]) = 10
   \<and> bin (last (histogram [mk_entry body_confidence_1 ''spam'' 0])) = ''90-100%''
   \<and> count (last (histogram [mk_entry body_confidence_1 ''spam'' 0])) = 0
   \<and> sum_list (map count (histogram [mk_entry body_confidence_1 ''spam'' 0])) = 0"
proof -
  have u: "[0 ..< 10] = [0, 1, 2, 3, 4, 5, 6, 7, 8, 9 :: nat]" by code_simp
  have a: "length (histogram [mk_entry body_confidence_1 ''spam'' 0]) = 10"
    by (simp add: histogram_by_index)
  have b: "bin (last (histogram [mk_entry body_confidence_1 ''spam'' 0])) = ''90-100%''"
    by (simp add: histogram_by_index u bins_values bin_label_def edge_percent del: js_mul.simps)
  have c: "sum_list (map count (histogram [mk_entry body_confidence_1 ''spam'' 0])) = 0"
    by (simp add: histogram_total mk_entry_def body_confidence_1_def)
  have d: "count (last (histogram [mk_entry body_confidence_1 ''spam'' 0])) = 0"
    by (simp add: histogram_by_index u bins_values mk_entry_def body_confidence_1_def)
  from a b c d show ?thesis by simp
qed

text \<open>
  C4 (as stated, refuted).  The claim says that an empty snapshot yields ten bars of
  count zero.  With 100 results of kind spam, none of kind malware and the filter
  \<open>malware\<close>, the effect returns at its guard \<open>allPredictions.length === 0\<close> and
  yields no histogram.
\<close>

theorem empty_snapshot_counterexample:
  "ConfidenceChart_effect True
     \<lparr> spam = replicate 100 (mk_entry (body_confidence (3 / 4)) ''spam'' 0), malware = [] \<rparr>
     ''malware'' = None"
  by (simp add: ConfidenceChart_effect_def allPredictions_def)

text \<open>
  C4 (amended).  For an empty snapshot, also one filtered to a kind that has no results,
  the effect of \<open>ConfidenceChart\<close> returns before it computes a histogram, without a
  failure; the binning expression itself maps the empty list to ten bars of count zero.
\<close>

theorem empty_snapshot_no_histogram:
  "(allPredictions predictionHistory filterType = []
      \<longrightarrow> ConfidenceChart_effect svgRef_current predictionHistory filterType = None)
   \<and> map count (histogram []) = replicate 10 0"
proof -
  have u: "[0 ..< 10] = [0, 1, 2, 3, 4, 5, 6, 7, 8, 9 :: nat]" by code_simp
  have "map count (histogram []) = replicate 10 0"
    by (simp add: histogram_by_index u comp_def numeral_eq_Suc)
  then show ?thesis by (simp add: ConfidenceChart_effect_def)
qed

theorem empty_snapshot_no_histogram_witness:
  "allPredictions \<lparr> spam = replicate 100 (mk_entry (body_confidence (3 / 4)) ''spam'' 0),
                    malware = [] \<rparr> ''malware'' = []
   \<and> ConfidenceChart_effect True
        \<lparr> spam = replicate 100 (mk_entry (body_confidence (3 / 4)) ''spam'' 0), malware = [] \<rparr>
        ''malware'' = None"
proof -
  have e: "allPredictions \<lparr> spam = replicate 100 (mk_entry (body_confidence (3 / 4)) ''spam'' 0),
                    malware = [] \<rparr> ''malware'' = []"
    by (simp add: allPredictions_def)
  show ?thesis
    using e empty_snapshot_no_histogram
      [of "\<lparr> spam = replicate 100 (mk_entry (body_confidence (3 / 4)) ''spam'' 0), malware = [] \<rparr>"
          "''malware''" True]
    by simp
qed

section \<open>Claims about the detectors\<close>

text \<open>
  C3 (as stated, refuted).  The claim says that an out-of-contract body yields an error
  and that nothing is appended.  For the success response with the body
  \<open>{"prediction":"spam","confidence":1.5,...}\<close>, \<open>handleSubmit\<close> of \<open>SpamDetector\<close> sets
  no error, shows the body as the result and appends it to the history.
\<close>

theorem out_of_contract_counterexample:
  "SpamDetector_handleSubmit (Response True (Json body_confidence_1_5)) 7
     (spam_detector_init, predictionHistory_init)
   = (spam_detector_init\<lparr>result := Some body_confidence_1_5\<rparr>,
      \<lparr> spam = [mk_entry body_confidence_1_5 ''spam'' 7], malware = [] \<rparr>)"
  by (simp add: SpamDetector_handleSubmit_def spam_detector_init_def predictionHistory_init_def)

text \<open>
  C3 (amended).  If the remote classifier returns a success response whose body parses,
  then whatever the body holds (a confidence outside \<open>[0,1]\<close> or a missing probability
  key included) the handler of either detector makes no contract check: it yields no
  error, keeps the body as the result and appends it, with its kind and the time, at the
  end of the partition of that kind; the other partition is unchanged.
\<close>

theorem parsed_body_appended_unchecked:
  "SpamDetector_handleSubmit (Response True (Json data)) now (s, h)
     = (s\<lparr>loading := False, error := None, result := Some data\<rparr>,
        h\<lparr>spam := spam h @ [mk_entry data ''spam'' now]\<rparr>)
   \<and> MalwareDetector_handleSubmit (Response True (Json data)) now (m, h)
     = (m\<lparr>loading := False, error := None, result := Some data\<rparr>,
        h\<lparr>malware := malware h @ [mk_entry data ''malware'' now]\<rparr>)"
  by (simp add: SpamDetector_handleSubmit_def MalwareDetector_handleSubmit_def)

text \<open>
  C6 (as stated, refuted).  The claim counts a malformed body among the failed attempts
  that leave the history unchanged and surface a message.  For a success response whose
  body parses and is out of contract, \<open>handleSubmit\<close> of \<open>MalwareDetector\<close> sets no
  error and appends the body to the history.
\<close>

theorem failed_attempt_counterexample:
  "error (fst (MalwareDetector_handleSubmit (Response True (Json body_malware_1_5)) 7
                 (malware_detector_init, predictionHistory_init))) = None
   \<and> malware (snd (MalwareDetector_handleSubmit (Response True (Json body_malware_1_5)) 7
                 (malware_detector_init, predictionHistory_init)))
       = [mk_entry body_malware_1_5 ''malware'' 7]"
  by (simp add: MalwareDetector_handleSubmit_def malware_detector_init_def
      predictionHistory_init_def)

text \<open>
  C6 (amended).  For every attempt that fails by a rejected request, by a response of
  non-success status, or by a body that does not parse, the history is left as it was, no
  result is kept, and the message of the failure is stored in \<open>error\<close>, for both
  detectors.  Whatever the outcome, when a message is stored in \<open>error\<close> nothing has
  been appended.
\<close>

theorem caught_attempt_leaves_history:
  "SpamDetector_handleSubmit (Rejected message) now (s, h)
     = (s\<lparr>loading := False, error := Some message, result := None\<rparr>, h)
   \<and> SpamDetector_handleSubmit (Response False b) now (s, h)
     = (s\<lparr>loading := False, error := Some ''Prediction failed'', result := None\<rparr>, h)
   \<and> SpamDetector_handleSubmit (Response True (Unparseable message)) now (s, h)
     = (s\<lparr>loading := False, error := Some message, result := None\<rparr>, h)
   \<and> MalwareDetector_handleSubmit (Rejected message) now (m, h)
     = (m\<lparr>loading := False, error := Some message, result := None\<rparr>, h)
   \<and> MalwareDetector_handleSubmit (Response False b) now (m, h)
     = (m\<lparr>loading := False, error := Some ''Prediction failed'', result := None\<rparr>, h)
   \<and> MalwareDetector_handleSubmit (Response True (Unparseable message)) now (m, h)
     = (m\<lparr>loading := False, error := Some message, result := None\<rparr>, h)
   \<and> (error (fst (SpamDetector_handleSubmit r now (s, h))) \<noteq> None
        \<longrightarrow> snd (SpamDetector_handleSubmit r now (s, h)) = h)
   \<and> (error (fst (MalwareDetector_handleSubmit r now (m, h))) \<noteq> None
        \<longrightarrow> snd (MalwareDetector_handleSubmit r now (m, h)) = h)"
proof -
  have a: "SpamDetector_handleSubmit (Rejected message) now (s, h)
     = (s\<lparr>loading := False, error := Some message, result := None\<rparr>, h)"
    "SpamDetector_handleSubmit (Response False b) now (s, h)
     = (s\<lparr>loading := False, error := Some ''Prediction failed'', result := None\<rparr>, h)"
    "SpamDetector_handleSubmit (Response True (Unparseable message)) now (s, h)
     = (s\<lparr>loading := False, error := Some message, result := None\<rparr>, h)"
    by (simp_all add: SpamDetector_handleSubmit_def)
  have b: "MalwareDetector_handleSubmit (Rejected message) now (m, h)
     = (m\<lparr>loading := False, error := Some message, result := None\<rparr>, h)"
    "MalwareDetector_handleSubmit (Response False b) now (m, h)
     = (m\<lparr>loading := False, error := Some ''Prediction failed'', result := None\<rparr>, h)"
    "MalwareDetector_handleSubmit (Response True (Unparseable message)) now (m, h)
     = (m\<lparr>loading := False, error := Some message, result := None\<rparr>, h)"
    by (simp_all add: MalwareDetector_handleSubmit_def)
  have c: "error (fst (SpamDetector_handleSubmit r now (s, h))) \<noteq> None
        \<longrightarrow> snd (SpamDetector_handleSubmit r now (s, h)) = h"
  proof (cases r)
    case (Rejected msg)
    then show ?thesis by (simp add: SpamDetector_handleSubmit_def)
  next
    case (Response ok body)
    then show ?thesis by (cases body; cases ok) (simp_all add: SpamDetector_handleSubmit_def Let_def)
  qed
  have d: "error (fst (MalwareDetector_handleSubmit r now (m, h))) \<noteq> None
        \<longrightarrow> snd (MalwareDetector_handleSubmit r now (m, h)) = h"
  proof (cases r)
    case (Rejected msg)
    then show ?thesis by (simp add: MalwareDetector_handleSubmit_def)
  next
    case (Response ok body)
    then show ?thesis by (cases body; cases ok) (simp_all add: MalwareDetector_handleSubmit_def Let_def)
  qed
  from a b c d show ?thesis by simp
qed

theorem caught_attempt_leaves_history_witness:
  "error (fst (SpamDetector_handleSubmit (Response False (Json body_confidence_1)) 7
                 (spam_detector_init, predictionHistory_init))) = Some ''Prediction failed''
   \<and> snd (SpamDetector_handleSubmit (Response False (Json body_confidence_1)) 7
             (spam_detector_init, predictionHistory_init)) = predictionHistory_init
   \<and> error (fst (MalwareDetector_handleSubmit (Response True (Unparseable ''Unexpected token'')) 7
                 (malware_detector_init, predictionHistory_init))) = Some ''Unexpected token''
   \<and> snd (MalwareDetector_handleSubmit (Response True (Unparseable ''Unexpected token'')) 7
             (malware_detector_init, predictionHistory_init)) = predictionHistory_init"
proof -
  have e: "error (fst (SpamDetector_handleSubmit (Response False (Json body_confidence_1)) 7
                 (spam_detector_init, predictionHistory_init))) = Some ''Prediction failed''"
    by (simp add: SpamDetector_handleSubmit_def)
  have f: "error (fst (MalwareDetector_handleSubmit (Response True (Unparseable ''Unexpected token'')) 7
                 (malware_detector_init, predictionHistory_init))) = Some ''Unexpected token''"
    by (simp add: MalwareDetector_handleSubmit_def)
  show ?thesis
    using e f
      caught_attempt_leaves_history
        [of _ 7 spam_detector_init predictionHistory_init _ malware_detector_init
            "Response False (Json body_confidence_1)"]
      caught_attempt_leaves_history
        [of _ 7 spam_detector_init predictionHistory_init _ malware_detector_init
            "Response True (Unparseable ''Unexpected token'')"]
    by simp
qed

text \<open>
  C8.  While \<open>emailText\<close> has fewer than 10 code units the submit button is disabled: a
  click on it sends no request and changes neither the detector nor the history.  With 10
  code units or more, and no request pending, a click sends exactly the request that
  carries the text.
\<close>

theorem short_email_sends_no_request:
  "(length (emailText s) < 10
      \<longrightarrow> SpamDetector_click_submit server now (s, h) = ((s, h), []))
   \<and> (10 \<le> length (emailText s) \<and> \<not> loading s
      \<longrightarrow> snd (SpamDetector_click_submit server now (s, h))
          = [\<lparr> url = ''http://localhost:8000/predict/spam'', body = Email (emailText s) \<rparr>])"
  by (simp add: SpamDetector_click_submit_def SpamDetector_submit_disabled_def Let_def
      SpamDetector_request_def API_URL_def)

theorem short_email_sends_no_request_witness:
  "length (emailText (spam_detector_init\<lparr>emailText := utf16 ''Buy now!!''\<rparr>)) = 9
   \<and> SpamDetector_click_submit (\<lambda>req. Response True (Json body_confidence_1)) 7
        (spam_detector_init\<lparr>emailText := utf16 ''Buy now!!''\<rparr>, predictionHistory_init)
      = ((spam_detector_init\<lparr>emailText := utf16 ''Buy now!!''\<rparr>, predictionHistory_init), [])
   \<and> snd (SpamDetector_click_submit (\<lambda>req. Response True (Json body_confidence_1)) 7
        (spam_detector_init\<lparr>emailText := utf16 ''Buy now!!!''\<rparr>, predictionHistory_init))
      = [\<lparr> url = ''http://localhost:8000/predict/spam'', body = Email (utf16 ''Buy now!!!'') \<rparr>]"
  using short_email_sends_no_request
      [of "spam_detector_init\<lparr>emailText := utf16 ''Buy now!!''\<rparr>"
          "\<lambda>req. Response True (Json body_confidence_1)" 7 predictionHistory_init]
    short_email_sends_no_request
      [of "spam_detector_init\<lparr>emailText := utf16 ''Buy now!!!''\<rparr>"
          "\<lambda>req. Response True (Json body_confidence_1)" 7 predictionHistory_init]
  by (simp add: utf16_def spam_detector_init_def)

text \<open>
  C7 (as stated, refuted).  The claim counts 32 fields; the object literal of \<open>formData\<close>
  has 33.
\<close>

theorem malware_sample_fields_counterexample:
  "length MalwareDetector_formData \<noteq> 32"
  by (simp add: MalwareDetector_formData_def)

text \<open>
  C7 (amended).  A MalwareSample is a record of exactly 33 named fields with distinct
  names, each holding a finite Number at the start.  Changes of the form's inputs and the
  example buttons keep all 33 names and their order, so every field is present in every
  state of the form, and the body of the malware predict request has exactly these 33
  named fields.
\<close>

theorem malware_sample_fields:
  assumes "\<forall>e \<in> set evs. \<forall>name val.
             e = Change name val \<longrightarrow> name \<in> set (input_names MalwareDetector_formData)"
  shows "length MalwareDetector_formData = 33
         \<and> distinct (map fst MalwareDetector_formData)
         \<and> (\<forall>kv \<in> set MalwareDetector_formData. \<exists>x. snd kv = Num x)
         \<and> map fst (form_run evs) = map fst MalwareDetector_formData
         \<and> (\<exists>fd. body (MalwareDetector_request (form_run evs)) = Form fd
                  \<and> map fst fd = map fst MalwareDetector_formData \<and> length fd = 33)"
proof -
  have a: "length MalwareDetector_formData = 33" by (simp add: MalwareDetector_formData_def)
  have b: "distinct (map fst MalwareDetector_formData)" unfolding formData_keys by simp
  have n: "\<forall>kv \<in> set MalwareDetector_formData. \<exists>x. snd kv = Num x"
    by (simp add: MalwareDetector_formData_def)
  have c: "map fst (form_run evs) = map fst MalwareDetector_formData"
    using assms unfolding input_names_keys by (rule form_run_keys)
  have "length (map fst (form_run evs)) = 33" unfolding c using a by simp
  then have d: "length (form_run evs) = 33" by simp
  have e: "map fst (map (\<lambda>(k, v). (k, JSON_stringify_number v)) (form_run evs))
           = map fst (form_run evs)"
    by (simp add: comp_def case_prod_unfold)
  from a b n c d e show ?thesis by (simp add: MalwareDetector_request_def)
qed

theorem malware_sample_fields_witness:
  "map fst (form_run [LoadExample ''malware'', Change ''utime'' (utf16 ''410001'')])
     = map fst MalwareDetector_formData
   \<and> length (form_run [LoadExample ''malware'', Change ''utime'' (utf16 ''410001'')]) = 33"
proof -
  have h: "\<forall>e \<in> set [LoadExample ''malware'', Change ''utime'' (utf16 ''410001'')].
             \<forall>name val. e = Change name val \<longrightarrow> name \<in> set (input_names MalwareDetector_formData)"
    by (simp add: input_names_def importantFields_def)
  have k: "map fst (form_run [LoadExample ''malware'', Change ''utime'' (utf16 ''410001'')])
     = map fst MalwareDetector_formData"
    using malware_sample_fields [OF h] by blast
  have "length (map fst (form_run [LoadExample ''malware'', Change ''utime'' (utf16 ''410001'')]))
     = length (map fst MalwareDetector_formData)"
    by (simp only: k)
  then have "length (form_run [LoadExample ''malware'', Change ''utime'' (utf16 ''410001'')]) = 33"
    by (simp add: MalwareDetector_formData_def)
  with k show ?thesis by simp
qed

section \<open>Claims about the simulated tick source\<close>

text \<open>
  C9.  Whatever doubles in \<open>[0, 1)\<close> the two calls of \<open>Math.random()\<close> return, the point
  of a tick has an integer spam count from 5 to 24 and an integer malware count from 3
  to 17.
\<close>

theorem simulated_counts_in_range:
  assumes "is_double r1" "0 \<le> r1" "r1 < 1" "is_double r2" "0 \<le> r2" "r2 < 1"
  shows "\<exists>m n. trend_point.spam (new_point (t, r1, r2)) = Num (of_int m) \<and> 5 \<le> m \<and> m \<le> 24
             \<and> trend_point.malware (new_point (t, r1, r2)) = Num (of_int n) \<and> 3 \<le> n \<and> n \<le> 17"
proof -
  obtain y where y: "js_mul (Num r1) (Num 20) = Num y" "0 \<le> y" "y < 20"
    using scaled_draw_20 [OF assms(1-3)] by blast
  obtain z where z: "js_mul (Num r2) (Num 15) = Num z" "0 \<le> z" "z < 15"
    using scaled_draw_15 [OF assms(4-6)] by blast
  define m where "m = \<lfloor>y\<rfloor> + 5"
  define n where "n = \<lfloor>z\<rfloor> + 3"
  have fy: "0 \<le> \<lfloor>y\<rfloor>" "\<lfloor>y\<rfloor> < 20" using y by (simp_all add: floor_less_iff)
  have fz: "0 \<le> \<lfloor>z\<rfloor>" "\<lfloor>z\<rfloor> < 15" using z by (simp_all add: floor_less_iff)
  have mb: "5 \<le> m" "m \<le> 24"
    using fy unfolding m_def by linarith+
  have nb: "3 \<le> n" "n \<le> 17"
    using fz unfolding n_def by linarith+
  have mp: "\<bar>m\<bar> < 2 ^ 53" using mb by simp
  have np: "\<bar>n\<bar> < 2 ^ 53" using nb by simp
  have "to_double (of_int m) = Num (of_int m)"
    using mp by (rule to_double_int_exact)
  then have s: "js_add (Math_floor (Num y)) (Num 5) = Num (of_int m)"
    by (simp add: m_def)
  have "to_double (of_int n) = Num (of_int n)"
    using np by (rule to_double_int_exact)
  then have k: "js_add (Math_floor (Num z)) (Num 3) = Num (of_int n)"
    by (simp add: n_def)
  have "trend_point.spam (new_point (t, r1, r2)) = Num (of_int m)"
    "trend_point.malware (new_point (t, r1, r2)) = Num (of_int n)"
    using s k y z by (simp_all add: new_point_def del: js_mul.simps)
  with mb nb show ?thesis by blast
qed

theorem simulated_counts_in_range_witness:
  "is_double (1 - 1 / 2 ^ 53) \<and> is_double 0
   \<and> (\<exists>m n. trend_point.spam (new_point (''12:00:00'', 1 - 1 / 2 ^ 53, 0)) = Num (of_int m)
              \<and> 5 \<le> m \<and> m \<le> 24
              \<and> trend_point.malware (new_point (''12:00:00'', 1 - 1 / 2 ^ 53, 0)) = Num (of_int n)
              \<and> 3 \<le> n \<and> n \<le> 17)"
proof -
  have a: "is_double (1 - 1 / 2 ^ 53)"
    unfolding is_double_def
    by (simp add: to_double_normal [where e = "- 1"] round_half_even_def Let_def floor_rat_numeral)
  have b: "is_double 0" by (simp add: is_double_def)
  show ?thesis
    using a b simulated_counts_in_range [OF a _ _ b, of "''12:00:00''"] by simp
qed

section \<open>Claims about the malware form\<close>

text \<open>
  C10 (as stated, refuted).  The claim says that the stored value is an integer after
  every change event.  For the value made of the digit 1 and 309 zeros, \<open>parseInt\<close>
  returns \<open>Infinity\<close>, which is truthy, and \<open>Infinity\<close> is stored in the field.
\<close>

theorem handleChange_stored_value_counterexample:
  "map_of (MalwareDetector_handleChange ''utime'' (0x31 # replicate 309 0x30)
             MalwareDetector_formData) ''utime'' = Some PosInf"
proof -
  have d: "\<forall>c \<in> set (0x31 # replicate 309 (0x30 :: 16 word)). 0x30 \<le> c \<and> c \<le> 0x39"
    by simp
  have "parseInt (0x31 # replicate 309 0x30)
        = to_double (of_int (int (foldl (\<lambda>n c. n * 10 + (unat c - 48)) 0
                                    (0x31 # replicate 309 (0x30 :: 16 word)))))"
    by (rule parseInt_decimal_point(2) [OF _ d]) simp
  also have "\<dots> = to_double (10 ^ 309)"
    by (simp add: foldl_decimal_zeros)
  also have "\<dots> = PosInf"
    by (rule to_double_overflow) simp
  finally show ?thesis
    by (simp add: MalwareDetector_handleChange_def update_conv')
qed

text \<open>
  C10 (amended).  For every change event on a malware form field, the value stored in
  the field by \<open>handleChange\<close> is \<open>parseInt(value) || 0\<close>.  It is an integer, or an infinity
  when the digits that are read denote a magnitude beyond the doubles.  A fractional part
  that follows decimal digits is dropped: the value read is the integer the digits before
  the point denote, with its sign, as a Number.  A value that does not parse to a number,
  the empty input included, is replaced by 0 and not rejected.
\<close>

theorem handleChange_stored_value:
  "map_of (MalwareDetector_handleChange name val prev) name = Some (js_or_0 (parseInt val))
   \<and> (js_or_0 (parseInt val) = PosInf \<or> js_or_0 (parseInt val) = NegInf
        \<or> (\<exists>k. js_or_0 (parseInt val) = Num (of_int k)))
   \<and> (Z \<noteq> [] \<and> (\<forall>c \<in> set Z. 0x30 \<le> c \<and> c \<le> 0x39) \<longrightarrow>
         parseInt (Z @ 0x2E # rest)
           = to_double (of_int (int (foldl (\<lambda>n c. n * 10 + (unat c - 48)) 0 Z)))
         \<and> parseInt (0x2D # Z @ 0x2E # rest)
           = to_double (of_int (- int (foldl (\<lambda>n c. n * 10 + (unat c - 48)) 0 Z)))
         \<and> parseInt (Z @ 0x2E # rest) = parseInt Z
         \<and> parseInt (0x2D # Z @ 0x2E # rest) = parseInt (0x2D # Z))
   \<and> (parseInt val = NaN \<longrightarrow>
         map_of (MalwareDetector_handleChange name val prev) name = Some (Num 0))
   \<and> parseInt [] = NaN"
proof -
  have a: "map_of (MalwareDetector_handleChange name val prev) name = Some (js_or_0 (parseInt val))"
    by (simp add: MalwareDetector_handleChange_def update_conv')
  have b: "js_or_0 (parseInt val) = PosInf \<or> js_or_0 (parseInt val) = NegInf
           \<or> (\<exists>k. js_or_0 (parseInt val) = Num (of_int k))"
    by (rule js_or_0_parseInt_cases)
  have c: "Z \<noteq> [] \<and> (\<forall>c \<in> set Z. 0x30 \<le> c \<and> c \<le> 0x39) \<longrightarrow>
         parseInt (Z @ 0x2E # rest)
           = to_double (of_int (int (foldl (\<lambda>n c. n * 10 + (unat c - 48)) 0 Z)))
         \<and> parseInt (0x2D # Z @ 0x2E # rest)
           = to_double (of_int (- int (foldl (\<lambda>n c. n * 10 + (unat c - 48)) 0 Z)))
         \<and> parseInt (Z @ 0x2E # rest) = parseInt Z
         \<and> parseInt (0x2D # Z @ 0x2E # rest) = parseInt (0x2D # Z)"
    using parseInt_decimal_point(1,3) [of Z rest] parseInt_decimal_point(2,4) [of Z] by simp
  have d: "parseInt val = NaN \<longrightarrow>
         map_of (MalwareDetector_handleChange name val prev) name = Some (Num 0)"
    by (simp add: a)
  from a b c d parseInt_empty show ?thesis by blast
qed

theorem handleChange_stored_value_witness:
  "parseInt (utf16 ''3.7'') = Num 3
   \<and> parseInt (utf16 ''-3.7'') = Num (- 3)
   \<and> parseInt (utf16 ''abc'') = NaN
   \<and> map_of (MalwareDetector_handleChange ''utime'' (utf16 ''abc'') MalwareDetector_formData)
        ''utime'' = Some (Num 0)
   \<and> map_of (MalwareDetector_handleChange ''utime'' (utf16 ''3.7'') MalwareDetector_formData)
        ''utime'' = Some (Num 3)"
proof -
  have n: "parseInt (utf16 ''abc'') = NaN"
    by (simp add: utf16_def parseInt_def parseInt_sign_def parseInt_radix_def
        parseInt_digits_def is_white_space_def digit_of_def)
  have t: "to_double (of_int 3) = Num (of_int 3)" "to_double (of_int (- 3)) = Num (of_int (- 3))"
    by (rule to_double_int_exact, simp)+
  have p: "parseInt (utf16 ''3.7'') = Num 3 \<and> parseInt (utf16 ''-3.7'') = Num (- 3)"
    using handleChange_stored_value [of "''utime''" "utf16 ''abc''" MalwareDetector_formData
        "utf16 ''3''" "utf16 ''7''"] t
    by (simp add: utf16_def)
  have z: "map_of (MalwareDetector_handleChange ''utime'' (utf16 ''abc'') MalwareDetector_formData)
        ''utime'' = Some (Num 0)"
    using handleChange_stored_value [of "''utime''" "utf16 ''abc''" MalwareDetector_formData] n
    by simp
  have s: "map_of (MalwareDetector_handleChange ''utime'' (utf16 ''3.7'') MalwareDetector_formData)
        ''utime'' = Some (Num 3)"
    using handleChange_stored_value [of "''utime''" "utf16 ''3.7''" MalwareDetector_formData] p
    by simp
  from n p z s show ?thesis by simp
qed

end
